theory Spec2Isabelle
  imports Complex_Main "HOL-Library.Multiset"
begin

section \<open>Softmax regression with L2 regularisation: the notebook's program\<close>

text \<open>
  The notebook \<^verbatim>\<open>P02-C05-regularization-scratch.ipynb\<close> trains a linear softmax
  classifier on 1000 MNIST digits, once without and once with an L2 penalty. This theory
  embeds its code cells: the model \<^verbatim>\<open>net\<close>, the loss \<^verbatim>\<open>cross_entropy\<close>, the
  optimiser \<^verbatim>\<open>SGD\<close>, the evaluation loop \<^verbatim>\<open>evaluate_accuracy\<close>, the penalty
  \<^verbatim>\<open>l2_penalty\<close> and the two training loops.

  Conventions of the embedding.
  \<^item> An mxnet \<^verbatim>\<open>NDArray\<close> holds float32 numbers. They are modelled by reals: the
    rounding of a result that float32 can represent is not modelled, and neither is the
    overflow of a sum or a product beyond the largest float32. What is modelled of
    float32: the exponential in \<^verbatim>\<open>nd.softmax\<close> underflows to zero, see
    \<open>float32_exp\<close>, and the values that no real number represents (the logarithm of a
    number that is not positive, a division by zero) are outcomes of their own, see
    \<open>failure\<close>.
  \<^item> A stored array is its shape and its row-major buffer, as mxnet keeps it; a
    two-dimensional intermediate value is the list of its rows.
  \<^item> The globals of the notebook (\<^verbatim>\<open>W\<close>, \<^verbatim>\<open>b\<close>, the two iterators,
    \<^verbatim>\<open>moving_loss\<close>, the printed lines) are the fields of one \<open>state\<close> record,
    passed through every function that reads or writes a global. The list
    \<^verbatim>\<open>params = [W, b]\<close> holds references to the two arrays, not copies.
  \<^item> The operators of the mxnet library (\<^verbatim>\<open>nd.dot\<close>, \<^verbatim>\<open>nd.softmax\<close>,
    \<^verbatim>\<open>nd.argmax\<close>, \<^verbatim>\<open>autograd\<close>, \<^verbatim>\<open>NDArrayIter\<close>) are not part of the notebook;
    each is modelled by what the library documents for it.
\<close>

subsection \<open>Arrays, batches, iterators and the global state\<close>

type_synonym matrix = "real list list"

text \<open>
  \<open>ShapeMismatch\<close>: mxnet raises \<^verbatim>\<open>MXNetError\<close> for operands of incompatible shapes.
  Shapes that mxnet would reconcile by broadcasting an axis of size one occur for no
  well-formed batch of this program; the model rejects them in the same way.
  \<open>ZeroDivisionError\<close>: Python's exception for a float divided by the float zero.
  \<open>NotFinite\<close>: no exception; the float32 result holds a NaN or an infinity, which a
  real number cannot represent.
\<close>

datatype failure = ShapeMismatch | ZeroDivisionError | NotFinite

text \<open>An array with the gradient buffer that \<^verbatim>\<open>attach_grad\<close> allocates for it.\<close>

record ndarray =
  shape :: "nat list"
  data :: "real list"
  grad :: "real list"

text \<open>
  A \<^verbatim>\<open>DataBatch\<close>: the buffer of \<^verbatim>\<open>batch.data[0]\<close> (row-major, of any shape) and the
  labels \<^verbatim>\<open>batch.label[0]\<close>. Labels are class indices; mxnet stores them as float32,
  which represents each of them exactly.
\<close>

record batch =
  batch_data :: "real list"
  batch_label :: "nat list"

text \<open>
  An \<^verbatim>\<open>NDArrayIter\<close>, a class of mxnet: the batches of the current pass over the
  data, the position of the next one, and the passes to come. Iterating hands out the
  batches of the current pass from the position on, and stops at the end.
  \<^verbatim>\<open>reset()\<close> starts the next pass at its first batch. The notebook builds both
  iterators with \<^verbatim>\<open>shuffle=True\<close>: a reset of such an iterator draws a new order of
  the samples (the first releases of mxnet drew one order, when the iterator was built),
  and the batches are cut from that order, the last one filled up with samples from the
  start of the order. (The notebook's 1000 samples in batches of 64 are handed out as 16
  batches of 64, which is why the accuracies it prints are multiples of 1/1024.) The
  order is drawn by the library's random generator: \<open>future it 0\<close> holds the batches
  of the pass that the next reset starts, \<open>future it 1\<close> those of the pass that the
  reset after it starts, and so on. For an iterator that does not shuffle, every pass
  holds the same batches.
\<close>

record NDArrayIter =
  batches :: "batch list"
  cursor :: nat
  future :: "nat \<Rightarrow> batch list"

record state =
  W :: ndarray
  b :: ndarray
  train_data :: NDArrayIter
  test_data :: NDArrayIter
  moving_loss :: real
  printed :: "(nat \<times> real \<times> real \<times> real) list"

datatype param_ref = Ref_W | Ref_b

datatype iter_ref = Train | Test

fun get_param :: "state \<Rightarrow> param_ref \<Rightarrow> ndarray" where
  "get_param s Ref_W = W s"
| "get_param s Ref_b = b s"

fun set_param :: "param_ref \<Rightarrow> ndarray \<Rightarrow> state \<Rightarrow> state" where
  "set_param Ref_W a s = s\<lparr>W := a\<rparr>"
| "set_param Ref_b a s = s\<lparr>b := a\<rparr>"

fun get_iter :: "state \<Rightarrow> iter_ref \<Rightarrow> NDArrayIter" where
  "get_iter s Train = train_data s"
| "get_iter s Test = test_data s"

fun set_iter :: "iter_ref \<Rightarrow> NDArrayIter \<Rightarrow> state \<Rightarrow> state" where
  "set_iter Train it s = s\<lparr>train_data := it\<rparr>"
| "set_iter Test it s = s\<lparr>test_data := it\<rparr>"

text \<open>\<^verbatim>\<open>params = [W, b]\<close>\<close>

definition params :: "param_ref list" where
  "params = [Ref_W, Ref_b]"

text \<open>
  The invariant of an array: the buffer has as many elements as the shape says, and so
  has the gradient buffer. \<^verbatim>\<open>W = nd.random_normal(shape=(784,10))\<close> and
  \<^verbatim>\<open>b = nd.random_normal(shape=10)\<close> fix the two shapes; the values are arbitrary.
\<close>

definition wf_ndarray :: "ndarray \<Rightarrow> bool" where
  "wf_ndarray a \<longleftrightarrow> length (data a) = prod_list (shape a) \<and> length (grad a) = length (data a)"

definition wf_params :: "state \<Rightarrow> bool" where
  "wf_params s \<longleftrightarrow> shape (W s) = [784, 10] \<and> wf_ndarray (W s) \<and> shape (b s) = [10] \<and> wf_ndarray (b s)"

subsection \<open>The NDArray operators the notebook calls\<close>

text \<open>\<^verbatim>\<open>nd.dot(X, W)\<close> for \<open>X\<close> given by its rows and \<open>W\<close> of shape \<open>(d, c)\<close> given by its buffer.\<close>

definition nd_dot :: "matrix \<Rightarrow> nat \<Rightarrow> nat \<Rightarrow> real list \<Rightarrow> matrix" where
  "nd_dot X d c w = map (\<lambda>x. map (\<lambda>j. \<Sum>k\<leftarrow>[0..<d]. x ! k * w ! (k * c + j)) [0..<c]) X"

text \<open>\<^verbatim>\<open>Z + b\<close>: the vector is added to every row.\<close>

definition broadcast_add :: "matrix \<Rightarrow> real list \<Rightarrow> matrix" where
  "broadcast_add Z v = map (\<lambda>z. map2 (+) z v) Z"

definition row_max :: "real list \<Rightarrow> real" where
  "row_max z = fold max (tl z) (hd z)"

text \<open>
  The exponential on float32. The smallest positive float32 is \<open>1 / 2 ^ 149\<close>; a
  result below half of it is rounded to zero. The arguments that \<^verbatim>\<open>nd.softmax\<close> passes are not positive, so the result
  does not overflow.
\<close>

definition float32_exp :: "real \<Rightarrow> real" where
  "float32_exp x = (if exp x < 1 / 2 ^ 150 then 0 else exp x)"

text \<open>
  \<^verbatim>\<open>nd.softmax(Z, axis=1)\<close>, as mxnet computes it: the maximum of the row is subtracted
  before exponentiating, and the exponentials are divided by their sum.
\<close>

definition softmax_row :: "real list \<Rightarrow> real list" where
  "softmax_row z =
     (if z = [] then []
      else let m = row_max z;
               e = map (\<lambda>v. float32_exp (v - m)) z;
               t = sum_list e
           in map (\<lambda>v. v / t) e)"

definition nd_softmax :: "matrix \<Rightarrow> matrix" where
  "nd_softmax Z = map softmax_row Z"

text \<open>\<^verbatim>\<open>nd.argmax(Z, axis=1)\<close>: the index of the first occurrence of the row's maximum.\<close>

definition argmax_row :: "real list \<Rightarrow> nat" where
  "argmax_row z = length (takeWhile (\<lambda>v. v \<noteq> row_max z) z)"

definition nd_argmax :: "matrix \<Rightarrow> nat list" where
  "nd_argmax Z = map argmax_row Z"

text \<open>\<^verbatim>\<open>nd.one_hot(label, depth)\<close>: an index outside the depth gives a row of zeros.\<close>

definition one_hot :: "nat list \<Rightarrow> nat \<Rightarrow> matrix" where
  "one_hot label depth = map (\<lambda>l. map (\<lambda>j. if j = l then 1 else 0) [0..<depth]) label"

text \<open>
  \<^verbatim>\<open>x.reshape((-1, d))\<close>: the buffer is cut into rows of \<open>d\<close> elements. mxnet has no
  array without elements, and raises when the size is not a multiple of \<open>d\<close>.
\<close>

definition reshape_rows :: "nat \<Rightarrow> real list \<Rightarrow> failure + matrix" where
  "reshape_rows d xs =
     (if d = 0 \<or> xs = [] \<or> length xs mod d \<noteq> 0 then Inl ShapeMismatch
      else Inr (map (\<lambda>i. take d (drop (i * d) xs)) [0..<length xs div d]))"

definition nd_log :: "matrix \<Rightarrow> matrix" where
  "nd_log A = map (map ln) A"

definition nd_mul :: "matrix \<Rightarrow> matrix \<Rightarrow> matrix" where
  "nd_mul A B = map2 (map2 (*)) A B"

text \<open>\<^verbatim>\<open>nd.sum(A, axis=0, exclude=True)\<close>: every axis but the first is summed away.\<close>

definition nd_sum_exclude0 :: "matrix \<Rightarrow> real list" where
  "nd_sum_exclude0 A = map sum_list A"

definition nd_neg :: "real list \<Rightarrow> real list" where
  "nd_neg v = map uminus v"

text \<open>\<^verbatim>\<open>nd.mean(v)\<close> of a non-empty array.\<close>

definition nd_mean :: "real list \<Rightarrow> real" where
  "nd_mean v = sum_list v / real (length v)"

subsection \<open>The model and the loss\<close>

text \<open>
  \<^verbatim>\<open>
  def net(X):
      y_linear = nd.dot(X, W) + b
      yhat = nd.softmax(y_linear, axis=1)
      return yhat
  \<close>
  \<^verbatim>\<open>nd.dot\<close> needs the rows of \<open>X\<close> to be as long as \<open>W\<close> has rows, the sum needs \<open>b\<close> to
  be as long as \<open>W\<close> has columns.
\<close>

definition net :: "state \<Rightarrow> matrix \<Rightarrow> failure + matrix" where
  "net s X =
     (case shape (W s) of
        [d, c] \<Rightarrow>
          if (\<forall>x\<in>set X. length x = d) \<and> shape (b s) = [c] then
            let y_linear = broadcast_add (nd_dot X d c (data (W s))) (data (b s));
                yhat = nd_softmax y_linear
            in Inr yhat
          else Inl ShapeMismatch
      | _ \<Rightarrow> Inl ShapeMismatch)"

text \<open>
  \<^verbatim>\<open>
  def cross_entropy(yhat, y):
      return - nd.sum(y * nd.log(yhat), axis=0, exclude=True)
  \<close>
  Where an entry of \<open>yhat\<close> is not positive its logarithm is minus infinity or NaN, and
  so is the loss of its row.
\<close>

definition cross_entropy :: "matrix \<Rightarrow> matrix \<Rightarrow> failure + real list" where
  "cross_entropy yhat y =
     (if map length yhat \<noteq> map length y then Inl ShapeMismatch
      else if \<exists>r\<in>set yhat. \<exists>p\<in>set r. p \<le> 0 then Inl NotFinite
      else Inr (nd_neg (nd_sum_exclude0 (nd_mul y (nd_log yhat)))))"

text \<open>
  \<^verbatim>\<open>
  def SGD(params, lr):
      for param in params:
          param[:] = param - lr * param.grad
  \<close>
  The slice assignment writes into the array that the reference names.
\<close>

definition SGD_update :: "real \<Rightarrow> ndarray \<Rightarrow> ndarray" where
  "SGD_update lr param = param\<lparr>data := map2 (\<lambda>x g. x - lr * g) (data param) (grad param)\<rparr>"

definition SGD :: "param_ref list \<Rightarrow> real \<Rightarrow> state \<Rightarrow> state" where
  "SGD ps lr s = fold (\<lambda>param s'. set_param param (SGD_update lr (get_param s' param)) s') ps s"

text \<open>
  \<^verbatim>\<open>
  def l2_penalty(params):
      penalty = nd.zeros(shape=1)
      for param in params:
          penalty = penalty + nd.sum(param ** 2)
      return penalty
  \<close>
  The result is an array of shape \<open>(1,)\<close>, modelled by its one element.
\<close>

definition l2_penalty :: "param_ref list \<Rightarrow> state \<Rightarrow> real" where
  "l2_penalty ps s = fold (\<lambda>param penalty. penalty + sum_list (map (\<lambda>x. x ^ 2) (data (get_param s param)))) ps 0"

subsection \<open>Iterating over an \<^verbatim>\<open>NDArrayIter\<close>\<close>

text \<open>\<^verbatim>\<open>data_iterator.reset()\<close>: the next pass becomes the current one.\<close>

definition iter_reset :: "iter_ref \<Rightarrow> state \<Rightarrow> state" where
  "iter_reset r s =
     (let it = get_iter s r in
      set_iter r (it\<lparr>batches := future it 0, cursor := 0, future := (\<lambda>k. future it (Suc k))\<rparr>) s)"

text \<open>
  One turn of \<^verbatim>\<open>for i, batch in enumerate(data_iterator)\<close>: the next batch and the
  iterator moved on, or \<open>None\<close> for \<^verbatim>\<open>StopIteration\<close>.
\<close>

definition iter_next :: "iter_ref \<Rightarrow> state \<Rightarrow> batch option \<times> state" where
  "iter_next r s =
     (let it = get_iter s r in
      if cursor it < length (batches it)
      then (Some (batches it ! cursor it), set_iter r (it\<lparr>cursor := Suc (cursor it)\<rparr>) s)
      else (None, s))"

subsection \<open>The evaluation loop\<close>

text \<open>\<^verbatim>\<open>nd.sum(predictions == label)\<close>\<close>

definition nd_equal :: "nat list \<Rightarrow> nat list \<Rightarrow> real list" where
  "nd_equal p l = map2 (\<lambda>x y. if x = y then 1 else 0) p l"

text \<open>
  The body of the loop of \<^verbatim>\<open>evaluate_accuracy\<close>: what one batch adds to the numerator
  and to the denominator.
  \<^verbatim>\<open>
        data = batch.data[0].as_in_context(ctx).reshape((-1,784))
        label = batch.label[0].as_in_context(ctx)
        label_one_hot = nd.one_hot(label, 10)
        output = net(data)
        predictions = nd.argmax(output, axis=1)
        numerator += nd.sum(predictions == label)
        denominator += data.shape[0]
  \<close>
\<close>

definition accuracy_batch :: "state \<Rightarrow> batch \<Rightarrow> failure + real \<times> real" where
  "accuracy_batch s batch =
     (case reshape_rows 784 (batch_data batch) of
        Inl e \<Rightarrow> Inl e
      | Inr dat \<Rightarrow>
          let label = batch_label batch;
              label_one_hot = one_hot label 10
          in (case net s dat of
                Inl e \<Rightarrow> Inl e
              | Inr output \<Rightarrow>
                  (let predictions = nd_argmax output in
                   if length predictions \<noteq> length label then Inl ShapeMismatch
                   else Inr (sum_list (nd_equal predictions label), real (length dat)))))"

function evaluate_loop :: "iter_ref \<Rightarrow> real \<Rightarrow> real \<Rightarrow> state \<Rightarrow> (failure + real \<times> real) \<times> state" where
  "evaluate_loop r numerator denominator s =
     (case iter_next r s of
        (None, s') \<Rightarrow> (Inr (numerator, denominator), s')
      | (Some batch, s') \<Rightarrow>
          (case accuracy_batch s' batch of
             Inl e \<Rightarrow> (Inl e, s')
           | Inr (c, n) \<Rightarrow> evaluate_loop r (numerator + c) (denominator + n) s'))"
  by pat_completeness auto
termination
proof (relation "measure (\<lambda>(r, numerator, denominator, s).
        length (batches (get_iter s r)) - cursor (get_iter s r))")
  fix r :: iter_ref and numerator denominator :: real and s s' :: state
    and x batch y and c n :: real
  assume "(x, s') = iter_next r s" "x = Some batch"
  then have "cursor (get_iter s r) < length (batches (get_iter s r))"
    and "s' = set_iter r ((get_iter s r)\<lparr>cursor := Suc (cursor (get_iter s r))\<rparr>) s"
    by (auto simp: iter_next_def Let_def split: if_splits)
  then show "((r, numerator + c, denominator + n, s'), (r, numerator, denominator, s))
      \<in> measure (\<lambda>(r, numerator, denominator, s).
          length (batches (get_iter s r)) - cursor (get_iter s r))"
    by (cases r) auto
qed simp

declare evaluate_loop.simps [simp del]

text \<open>
  \<^verbatim>\<open>
  def evaluate_accuracy(data_iterator, net):
      numerator = 0.
      denominator = 0.
      data_iterator.reset()
      for i, batch in enumerate(data_iterator):
          ...
      return (numerator / denominator).asscalar()
  \<close>
  Every batch has at least one row, so the denominator is zero only when the loop body
  never ran; then both operands are still Python floats and the division raises.
\<close>

definition evaluate_accuracy :: "iter_ref \<Rightarrow> state \<Rightarrow> (failure + real) \<times> state" where
  "evaluate_accuracy r s =
     (case evaluate_loop r 0 0 (iter_reset r s) of
        (Inl e, s') \<Rightarrow> (Inl e, s')
      | (Inr (numerator, denominator), s') \<Rightarrow>
          if denominator = 0 then (Inl ZeroDivisionError, s')
          else (Inr (numerator / denominator), s'))"

subsection \<open>Reverse-mode differentiation of the recorded operators\<close>

text \<open>
  \<^verbatim>\<open>with autograd.record(): ...\<close> records the operators applied to the arrays that
  have a gradient buffer; \<^verbatim>\<open>loss.backward()\<close> walks the record backwards from a head
  gradient of ones and writes into \<^verbatim>\<open>W.grad\<close> and \<^verbatim>\<open>b.grad\<close> the sum of what every
  use of \<^verbatim>\<open>W\<close> and of \<^verbatim>\<open>b\<close> contributes. Each function below is the gradient rule
  of one operator: it maps the gradient of the operator's result to the gradient of its
  argument.
\<close>

definition nd_neg_backward :: "real list \<Rightarrow> real list" where
  "nd_neg_backward g = map uminus g"

definition nd_sum_exclude0_backward :: "matrix \<Rightarrow> real list \<Rightarrow> matrix" where
  "nd_sum_exclude0_backward A g = map2 (\<lambda>row gi. map (\<lambda>_. gi) row) A g"

text \<open>The rule of \<^verbatim>\<open>A * B\<close> for its second factor.\<close>

definition nd_mul_backward :: "matrix \<Rightarrow> matrix \<Rightarrow> matrix" where
  "nd_mul_backward A g = map2 (map2 (*)) A g"

definition nd_log_backward :: "matrix \<Rightarrow> matrix \<Rightarrow> matrix" where
  "nd_log_backward A g = map2 (map2 (\<lambda>p gi. gi / p)) A g"

text \<open>The rule of the softmax, from the softmax's output \<open>p\<close>.\<close>

definition softmax_row_backward :: "real list \<Rightarrow> real list \<Rightarrow> real list" where
  "softmax_row_backward p g =
     (let t = sum_list (map2 (*) p g) in map2 (\<lambda>pi gi. pi * (gi - t)) p g)"

definition nd_softmax_backward :: "matrix \<Rightarrow> matrix \<Rightarrow> matrix" where
  "nd_softmax_backward Y g = map2 softmax_row_backward Y g"

text \<open>The rule of \<^verbatim>\<open>Z + b\<close> for the vector: the columns of the gradient are summed.\<close>

definition broadcast_add_backward :: "nat \<Rightarrow> matrix \<Rightarrow> real list" where
  "broadcast_add_backward c g = map (\<lambda>j. \<Sum>row\<leftarrow>g. row ! j) [0..<c]"

text \<open>
  The rule of \<^verbatim>\<open>nd.dot(X, W)\<close> for \<open>W\<close>: the transpose of \<open>X\<close> times the gradient, as a
  row-major buffer of shape \<open>(d, c)\<close>.
\<close>

definition nd_dot_backward :: "matrix \<Rightarrow> nat \<Rightarrow> nat \<Rightarrow> matrix \<Rightarrow> real list" where
  "nd_dot_backward X d c g =
     concat (map (\<lambda>k. map (\<lambda>j. \<Sum>(x, gr)\<leftarrow>zip X g. x ! k * gr ! j) [0..<c]) [0..<d])"

text \<open>
  Backwards through \<^verbatim>\<open>cross_entropy\<close>: negation, sum, product with the constant \<open>y\<close>,
  logarithm. The result is the gradient of \<open>yhat\<close>.
\<close>

definition cross_entropy_backward :: "matrix \<Rightarrow> matrix \<Rightarrow> real list \<Rightarrow> matrix" where
  "cross_entropy_backward yhat y head =
     (let g_sum = nd_neg_backward head;
          g_mul = nd_sum_exclude0_backward (nd_mul y (nd_log yhat)) g_sum;
          g_log = nd_mul_backward y g_mul
      in nd_log_backward yhat g_log)"

text \<open>
  Backwards through \<^verbatim>\<open>net\<close>: softmax, sum with \<open>b\<close>, product with \<open>W\<close>. The result is
  the pair of what this use contributes to \<^verbatim>\<open>W.grad\<close> and to \<^verbatim>\<open>b.grad\<close>.
\<close>

definition net_backward :: "state \<Rightarrow> matrix \<Rightarrow> matrix \<Rightarrow> matrix \<Rightarrow> real list \<times> real list" where
  "net_backward s X yhat g =
     (case shape (W s) of
        [d, c] \<Rightarrow>
          let g_linear = nd_softmax_backward yhat g
          in (nd_dot_backward X d c g_linear, broadcast_add_backward c g_linear)
      | _ \<Rightarrow> ([], []))"

text \<open>
  Backwards through \<^verbatim>\<open>l2_penalty\<close>: every turn of its loop adds \<^verbatim>\<open>nd.sum(param ** 2)\<close>,
  whose rule gives \<open>2 * x\<close> times the gradient of the penalty to each element \<open>x\<close> of
  \<^verbatim>\<open>param\<close>. The result is what the uses of the array \<open>r\<close> contribute together.
\<close>

definition l2_penalty_backward :: "param_ref list \<Rightarrow> real \<Rightarrow> state \<Rightarrow> param_ref \<Rightarrow> real list" where
  "l2_penalty_backward ps g s r =
     fold (\<lambda>param acc. if param = r then map2 (+) acc (map (\<lambda>x. g * (2 * x)) (data (get_param s r))) else acc)
       ps (map (\<lambda>_. 0) (data (get_param s r)))"

definition write_grads :: "real list \<Rightarrow> real list \<Rightarrow> state \<Rightarrow> state" where
  "write_grads gW gb s = s\<lparr>W := (W s)\<lparr>grad := gW\<rparr>, b := (b s)\<lparr>grad := gb\<rparr>\<rparr>"

text \<open>
  \<^verbatim>\<open>loss.backward()\<close> in the first training loop, where the record is
  \<^verbatim>\<open>output = net(data); loss = cross_entropy(output, label_one_hot)\<close>.
\<close>

definition backward :: "matrix \<Rightarrow> matrix \<Rightarrow> matrix \<Rightarrow> real list \<Rightarrow> state \<Rightarrow> state" where
  "backward dat output label_one_hot loss s =
     (let head = map (\<lambda>_. 1) loss;
          g_output = cross_entropy_backward output label_one_hot head;
          (gW, gb) = net_backward s dat output g_output
      in write_grads gW gb s)"

text \<open>
  \<^verbatim>\<open>loss.backward()\<close> in the second training loop, where the record is
  \<^verbatim>\<open>output = net(data); loss = nd.sum(cross_entropy(output, label_one_hot)) + l2_strength * l2_penalty(params)\<close>.
  The head gradient of the one-element loss goes to both summands; \<^verbatim>\<open>nd.sum\<close> hands
  it to every element of the cross-entropy, the product with \<^verbatim>\<open>l2_strength\<close> scales
  it for the penalty.
\<close>

definition backward_l2 :: "real \<Rightarrow> matrix \<Rightarrow> matrix \<Rightarrow> matrix \<Rightarrow> real list \<Rightarrow> state \<Rightarrow> state" where
  "backward_l2 l2_strength dat output label_one_hot ce s =
     (let head = 1;
          g_ce = map (\<lambda>_. head) ce;
          g_penalty = l2_strength * head;
          g_output = cross_entropy_backward output label_one_hot g_ce;
          (gW, gb) = net_backward s dat output g_output
      in write_grads (map2 (+) gW (l2_penalty_backward params g_penalty s Ref_W))
                     (map2 (+) gb (l2_penalty_backward params g_penalty s Ref_b)) s)"

subsection \<open>The training loops\<close>

text \<open>
  The body of the first training loop, for the batch that \<^verbatim>\<open>enumerate\<close> numbers \<open>i\<close>.
  \<^verbatim>\<open>
        data = batch.data[0].as_in_context(ctx).reshape((-1,784))
        label = batch.label[0].as_in_context(ctx)
        label_one_hot = nd.one_hot(label, 10)
        with autograd.record():
            output = net(data)
            loss = cross_entropy(output, label_one_hot)
        loss.backward()
        SGD(params, .001)
        if i == 0:
            moving_loss = nd.mean(loss).asscalar()
        else:
            moving_loss = .99 * moving_loss + .01 * nd.mean(loss).asscalar()
  \<close>
  Where a probability has underflowed to zero and the loss is not finite, Python goes
  on with infinities and NaN in the arrays. The model ends there with \<open>NotFinite\<close>:
  it says nothing about the arrays after such a batch.
\<close>

definition train_batch :: "nat \<Rightarrow> batch \<Rightarrow> state \<Rightarrow> failure + state" where
  "train_batch i batch s =
     (case reshape_rows 784 (batch_data batch) of
        Inl e \<Rightarrow> Inl e
      | Inr dat \<Rightarrow>
          (let label = batch_label batch;
               label_one_hot = one_hot label 10
           in (case net s dat of
                 Inl e \<Rightarrow> Inl e
               | Inr output \<Rightarrow>
                   (case cross_entropy output label_one_hot of
                      Inl e \<Rightarrow> Inl e
                    | Inr loss \<Rightarrow>
                        (let s1 = backward dat output label_one_hot loss s;
                             s2 = SGD params (1 / 1000) s1
                         in Inr (s2\<lparr>moving_loss :=
                                   if i = 0 then nd_mean loss
                                   else 99 / 100 * moving_loss s2 + 1 / 100 * nd_mean loss\<rparr>))))))"

text \<open>
  The body of the second training loop; it differs in the loss.
  \<^verbatim>\<open>
            loss = nd.sum(cross_entropy(output, label_one_hot)) + l2_strength * l2_penalty(params)
  \<close>
\<close>

definition train_batch_l2 :: "real \<Rightarrow> nat \<Rightarrow> batch \<Rightarrow> state \<Rightarrow> failure + state" where
  "train_batch_l2 l2_strength i batch s =
     (case reshape_rows 784 (batch_data batch) of
        Inl e \<Rightarrow> Inl e
      | Inr dat \<Rightarrow>
          (let label = batch_label batch;
               label_one_hot = one_hot label 10
           in (case net s dat of
                 Inl e \<Rightarrow> Inl e
               | Inr output \<Rightarrow>
                   (case cross_entropy output label_one_hot of
                      Inl e \<Rightarrow> Inl e
                    | Inr ce \<Rightarrow>
                        (let loss = [sum_list ce + l2_strength * l2_penalty params s];
                             s1 = backward_l2 l2_strength dat output label_one_hot ce s;
                             s2 = SGD params (1 / 1000) s1
                         in Inr (s2\<lparr>moving_loss :=
                                   if i = 0 then nd_mean loss
                                   else 99 / 100 * moving_loss s2 + 1 / 100 * nd_mean loss\<rparr>))))))"

text \<open>
  The losses that the two loop bodies compute for a batch from the parameters of the
  state: the recorded part of each body.
  \<^verbatim>\<open>
            output = net(data)
            loss = cross_entropy(output, label_one_hot)
  \<close>
  and
  \<^verbatim>\<open>
            output = net(data)
            loss = nd.sum(cross_entropy(output, label_one_hot)) + l2_strength * l2_penalty(params)
  \<close>
\<close>

definition batch_loss :: "batch \<Rightarrow> state \<Rightarrow> failure + real list" where
  "batch_loss batch s =
     (case reshape_rows 784 (batch_data batch) of
        Inl e \<Rightarrow> Inl e
      | Inr dat \<Rightarrow>
          (case net s dat of
             Inl e \<Rightarrow> Inl e
           | Inr output \<Rightarrow> cross_entropy output (one_hot (batch_label batch) 10)))"











subsection \<open>The specification's vocabulary\<close>

text \<open>
  The definitions of this subsection follow the words of the specification, not the
  code; the theorems compare the code with them.

  The softmax of a vector, as the textbooks define it.
\<close>

definition spec_softmax :: "real list \<Rightarrow> real list" where
  "spec_softmax z = map (\<lambda>v. exp v / (\<Sum>u\<leftarrow>z. exp u)) z"

text \<open>
  The affine transform \<open>x.W + b\<close> of one flattened input vector, for the weight matrix
  of shape \<open>784 \<times> 10\<close> whose element \<open>(k, j)\<close> is at position \<open>k * 10 + j\<close> of the buffer.
\<close>

definition spec_affine :: "state \<Rightarrow> real list \<Rightarrow> real list" where
  "spec_affine s x =
     map (\<lambda>j. (\<Sum>k\<leftarrow>[0..<784]. x ! k * data (W s) ! (k * 10 + j)) + data (b s) ! j) [0..<10]"

text \<open>A row of a one-hot label matrix: one at the class \<open>c\<close>, zero elsewhere.\<close>

definition spec_one_hot_row :: "real list \<Rightarrow> nat \<Rightarrow> bool" where
  "spec_one_hot_row r c \<longleftrightarrow> c < length r \<and> (\<forall>j<length r. r ! j = (if j = c then 1 else 0))"

text \<open>
  The argmax of a vector: the index of an entry that no entry exceeds, the lowest such
  index when there are several. (A vector without entries has none; 0 stands for it.)
\<close>

definition spec_argmax :: "real list \<Rightarrow> nat" where
  "spec_argmax p =
     (case find (\<lambda>i. \<forall>j\<in>set [0..<length p]. p ! j \<le> p ! i) [0..<length p] of
        Some i \<Rightarrow> i
      | None \<Rightarrow> 0)"

text \<open>
  The prediction of the Model for one sample: the probabilities that \<^verbatim>\<open>net\<close> returns
  for the batch that holds this sample alone.
\<close>

definition spec_prediction :: "state \<Rightarrow> real list \<Rightarrow> real list" where
  "spec_prediction s x = (case net s [x] of Inr [p] \<Rightarrow> p | _ \<Rightarrow> [])"

text \<open>The class the Model predicts for one sample: the argmax of its prediction.\<close>

definition spec_predicted_class :: "state \<Rightarrow> real list \<Rightarrow> nat" where
  "spec_predicted_class s x = spec_argmax (spec_prediction s x)"

text \<open>
  A batch as the specification describes it: at least one sample, every sample a
  vector of 784 pixels with its label.
\<close>

definition wf_batch :: "batch \<Rightarrow> bool" where
  "wf_batch batch \<longleftrightarrow>
     batch_label batch \<noteq> [] \<and> length (batch_data batch) = 784 * length (batch_label batch)"

text \<open>The samples of a batch: the \<open>i\<close>-th block of 784 pixels with the \<open>i\<close>-th label.\<close>

definition spec_samples :: "batch \<Rightarrow> (real list \<times> nat) list" where
  "spec_samples batch =
     zip (map (\<lambda>i. take 784 (drop (i * 784) (batch_data batch))) [0..<length (batch_label batch)])
         (batch_label batch)"

text \<open>The number of samples whose predicted class is their label.\<close>

definition spec_correct :: "state \<Rightarrow> (real list \<times> nat) list \<Rightarrow> nat" where
  "spec_correct s samples = length (filter (\<lambda>(x, l). spec_predicted_class s x = l) samples)"

text \<open>
  The loop of \<^verbatim>\<open>evaluate_accuracy\<close> as a function of the batches it reads: the
  numerator and the denominator after the last of them, or the failure of the first
  batch that fails.
\<close>

fun accuracy_batches :: "state \<Rightarrow> batch list \<Rightarrow> real \<Rightarrow> real \<Rightarrow> failure + real \<times> real" where
  "accuracy_batches s [] numerator denominator = Inr (numerator, denominator)"
| "accuracy_batches s (batch # rest) numerator denominator =
     (case accuracy_batch s batch of
        Inl e \<Rightarrow> Inl e
      | Inr (c, n) \<Rightarrow> accuracy_batches s rest (numerator + c) (denominator + n))"

text \<open>
  The samples of the pass over the data that a reset of the iterator starts: what a
  call of \<^verbatim>\<open>evaluate_accuracy\<close> is presented with.
\<close>

definition spec_presented :: "state \<Rightarrow> iter_ref \<Rightarrow> (real list \<times> nat) list" where
  "spec_presented s r = concat (map spec_samples (future (get_iter s r) 0))"








subsection \<open>Concrete states\<close>

text \<open>
  Two images, one black and one white, labelled 0 and 3; all weights and biases zero.
  Neither iterator shuffles. The test iterator has been read to its end.
\<close>

definition example_batch :: batch where
  "example_batch = \<lparr>batch_data = replicate 784 0 @ replicate 784 1, batch_label = [0, 3]\<rparr>"

definition example_state :: state where
  "example_state =
     \<lparr>W = \<lparr>shape = [784, 10], data = replicate 7840 0, grad = replicate 7840 0\<rparr>,
      b = \<lparr>shape = [10], data = replicate 10 0, grad = replicate 10 0\<rparr>,
      train_data = \<lparr>batches = [example_batch], cursor = 0, future = (\<lambda>k. [example_batch])\<rparr>,
      test_data = \<lparr>batches = [example_batch], cursor = 1, future = (\<lambda>k. [example_batch])\<rparr>,
      moving_loss = 0,
      printed = []\<rparr>"

text \<open>The same state with a test iterator that has no batch in any pass.\<close>

definition empty_test_state :: state where
  "empty_test_state = example_state\<lparr>test_data := \<lparr>batches = [], cursor = 0, future = (\<lambda>k. [])\<rparr>\<rparr>"


text \<open>
  A state whose bias favours class 3, so that every input is predicted as a 3, and a
  test set of three black images labelled 3, 3 and 0. The test iterator shuffles and
  hands out batches of two. The pass that its next reset starts has the order 1, 2, 3
  of the samples: the batches are (1, 2) and (3, 1), the last one filled up with sample
  1. The passes after that have the order 3, 1, 2: their batches are (3, 1) and (2, 3),
  the last one filled up with sample 3.
\<close>

definition batch_of_labels :: "nat list \<Rightarrow> batch" where
  "batch_of_labels ls = \<lparr>batch_data = replicate (784 * length ls) 0, batch_label = ls\<rparr>"

definition shuffled_state :: state where
  "shuffled_state =
     example_state
       \<lparr>b := \<lparr>shape = [10], data = [0, 0, 0, 1, 0, 0, 0, 0, 0, 0], grad = replicate 10 0\<rparr>,
        test_data :=
          \<lparr>batches = [batch_of_labels [3, 3], batch_of_labels [0, 3]],
           cursor = 0,
           future = (\<lambda>k. if k = 0 then [batch_of_labels [3, 3], batch_of_labels [0, 3]]
                         else [batch_of_labels [0, 3], batch_of_labels [3, 0]])\<rparr>\<rparr>"

text \<open>
  The same parameters with a test set of two black images, labelled 3 and 0, in one
  batch; the passes present them alternately in the two orders.
\<close>

definition permuted_state :: state where
  "permuted_state =
     shuffled_state
       \<lparr>test_data :=
          \<lparr>batches = [],
           cursor = 0,
           future = (\<lambda>k. if even k then [batch_of_labels [3, 0]] else [batch_of_labels [0, 3]])\<rparr>\<rparr>"

section \<open>Properties\<close>

subsection \<open>The penalty\<close>

lemma fold_plus_sum_list:
  "fold (\<lambda>p acc. acc + f p) ps (a::real) = a + sum_list (map f ps)"
  by (induction ps arbitrary: a) (simp_all add: algebra_simps)

lemma sum_list_squares_nonneg: "0 \<le> (\<Sum>x\<leftarrow>xs. (x::real) ^ 2)"
  by (rule sum_list_nonneg) auto

lemma l2_penalty_general:
  "l2_penalty ps s = (\<Sum>p\<leftarrow>ps. \<Sum>x\<leftarrow>data (get_param s p). x ^ 2)"
  unfolding l2_penalty_def by (simp add: fold_plus_sum_list)

text \<open>
  C4. For every weight matrix and bias vector, \<^verbatim>\<open>l2_penalty(params)\<close> is one number:
  the sum of the squares of all elements of \<^verbatim>\<open>W\<close> and of \<^verbatim>\<open>b\<close> together; it is
  not negative.
\<close>

theorem l2_penalty_sum_of_squares:
  "l2_penalty params s = (\<Sum>x\<leftarrow>data (W s) @ data (b s). x ^ 2) \<and> 0 \<le> l2_penalty params s"
  by (simp add: l2_penalty_def params_def sum_list_squares_nonneg)

subsection \<open>The softmax\<close>

lemma sum_list_exp_pos: "z \<noteq> [] \<Longrightarrow> 0 < (\<Sum>u\<leftarrow>z. exp (f u :: real))"
proof (induction z)
  case Nil
  then show ?case by simp
next
  case (Cons a z)
  have "0 \<le> (\<Sum>u\<leftarrow>z. exp (f u))"
    by (rule sum_list_nonneg) auto
  then show ?case
    by (simp add: add_pos_nonneg)
qed

lemma member_le_sum_list_real:
  "\<forall>x\<in>set xs. 0 \<le> x \<Longrightarrow> (x::real) \<in> set xs \<Longrightarrow> x \<le> sum_list xs"
proof (induction xs)
  case Nil
  then show ?case by simp
next
  case (Cons a xs)
  have "0 \<le> sum_list xs"
    using Cons.prems(1) by (intro sum_list_nonneg) simp
  with Cons show ?case by auto
qed

lemma sum_list_le_length: "\<forall>x\<in>set xs. x \<le> 1 \<Longrightarrow> sum_list xs \<le> real (length xs)"
  by (induction xs) auto

text \<open>The exponential on float32: where it is exact, and where it is zero.\<close>

lemma float32_exp_nonneg: "0 \<le> float32_exp x"
  by (simp add: float32_exp_def)

lemma float32_exp_le_one: "x \<le> 0 \<Longrightarrow> float32_exp x \<le> 1"
  by (simp add: float32_exp_def)

lemma float32_exp_zero: "float32_exp 0 = 1"
  by (simp add: float32_exp_def)

lemma float32_exp_less_one: "x < 0 \<Longrightarrow> float32_exp x < 1"
  by (simp add: float32_exp_def)

lemma exp_80: "exp (80::real) \<le> 2 ^ 150"
proof -
  have "exp (80::real) = exp 1 ^ 80"
    using exp_of_nat_mult[of 80 "1::real"] by simp
  also have "\<dots> \<le> 3 ^ 80"
    by (intro power_mono exp_le) simp
  also have "\<dots> \<le> (2::real) ^ 150"
    by simp
  finally show ?thesis .
qed


lemma float32_exp_exact:
  assumes "- 80 \<le> x"
  shows "float32_exp x = exp x"
proof -
  have "1 / 2 ^ 150 \<le> 1 / exp (80::real)"
    using exp_80 by (intro divide_left_mono) simp_all
  also have "\<dots> = exp (- 80)"
    by (simp add: exp_minus inverse_eq_divide)
  also have "\<dots> \<le> exp x"
    using assms by simp
  finally show ?thesis
    by (simp add: float32_exp_def)
qed


lemma row_max_Max: "z \<noteq> [] \<Longrightarrow> row_max z = Max (set z)"
proof (cases z)
  case Nil
  assume "z \<noteq> []"
  with Nil show ?thesis by simp
next
  case (Cons a list)
  then show ?thesis
    unfolding row_max_def by (simp only: list.sel Max.set_eq_fold)
qed

text \<open>
  The divisor of a row of the softmax: the largest logit contributes \<open>exp 0 = 1\<close>, and
  no logit contributes more.
\<close>

lemma softmax_divisor:
  assumes "z \<noteq> []"
  shows "1 \<le> (\<Sum>v\<leftarrow>z. float32_exp (v - Max (set z)))"
    and "(\<Sum>v\<leftarrow>z. float32_exp (v - Max (set z))) \<le> real (length z)"
proof -
  have "Max (set z) \<in> set z"
    using assms by (intro Max_in) simp_all
  then have "1 \<in> set (map (\<lambda>v. float32_exp (v - Max (set z))) z)"
    by (auto simp: image_iff float32_exp_zero intro!: bexI[of _ "Max (set z)"])
  then show "1 \<le> (\<Sum>v\<leftarrow>z. float32_exp (v - Max (set z)))"
    by (intro member_le_sum_list_real) (auto simp: float32_exp_nonneg)
  have "sum_list (map (\<lambda>v. float32_exp (v - Max (set z))) z)
      \<le> real (length (map (\<lambda>v. float32_exp (v - Max (set z))) z))"
    by (intro sum_list_le_length) (auto intro!: float32_exp_le_one)
  then show "(\<Sum>v\<leftarrow>z. float32_exp (v - Max (set z))) \<le> real (length z)"
    by simp
qed

lemma softmax_row_nth:
  assumes "j < length z"
  shows "softmax_row z ! j
    = float32_exp (z ! j - Max (set z)) / (\<Sum>v\<leftarrow>z. float32_exp (v - Max (set z)))"
proof -
  from assms have "z \<noteq> []" by auto
  with assms show ?thesis
    by (simp add: softmax_row_def Let_def row_max_Max)
qed

lemma length_softmax_row: "length (softmax_row z) = length z"
  by (simp add: softmax_row_def Let_def)


text \<open>
  Where no logit is more than 80 below the largest, nothing underflows; subtracting the
  maximum does not change the value, and mxnet's softmax is the textbook's.
\<close>

lemma softmax_row_eq_spec:
  assumes "\<forall>v\<in>set z. Max (set z) - 80 \<le> v"
  shows "softmax_row z = spec_softmax z"
proof (cases "z = []")
  case True
  then show ?thesis by (simp add: softmax_row_def spec_softmax_def)
next
  case False
  define m where "m = Max (set z)"
  have f: "map (\<lambda>v. float32_exp (v - m)) z = map (\<lambda>v. exp (v - m)) z"
  proof (intro map_cong refl float32_exp_exact)
    fix v assume "v \<in> set z"
    with assms have "Max (set z) - 80 \<le> v" by blast
    then show "- 80 \<le> v - m" by (simp add: m_def)
  qed
  have s: "(\<Sum>u\<leftarrow>z. exp (u - m)) = (\<Sum>u\<leftarrow>z. exp u) * exp (- m)"
    by (simp add: exp_diff exp_minus sum_list_mult_const[symmetric] divide_inverse)
  have eq: "exp (v - m) / (\<Sum>u\<leftarrow>z. exp (u - m)) = exp v / (\<Sum>u\<leftarrow>z. exp u)" for v
    unfolding s by (simp add: exp_diff exp_minus divide_simps)
  have "softmax_row z
      = map (\<lambda>v. v / sum_list (map (\<lambda>v. float32_exp (v - m)) z)) (map (\<lambda>v. float32_exp (v - m)) z)"
    unfolding softmax_row_def Let_def row_max_Max[OF False] m_def[symmetric]
    by (simp only: False if_False)
  also have "\<dots> = map (\<lambda>v. v / sum_list (map (\<lambda>v. exp (v - m)) z)) (map (\<lambda>v. exp (v - m)) z)"
    unfolding f ..
  also have "\<dots> = spec_softmax z"
    using eq by (simp add: spec_softmax_def comp_def)
  finally show ?thesis .
qed

lemma spec_softmax_pos: "p \<in> set (spec_softmax z) \<Longrightarrow> 0 < p"
  by (cases "z = []") (auto simp: spec_softmax_def sum_list_exp_pos)


subsection \<open>The argmax\<close>

text \<open>
  The specification's argmax is an index of a largest entry, and the lowest such index.
\<close>

lemma spec_argmax_eqI:
  assumes "k < length p" and "\<forall>j<length p. p ! j \<le> p ! k" and "\<forall>i<k. p ! i < p ! k"
  shows "spec_argmax p = k"
proof -
  have "find (\<lambda>i. \<forall>j\<in>set [0..<length p]. p ! j \<le> p ! i) [0..<length p] = Some k"
    unfolding find_Some_iff
  proof (intro exI[of _ k] conjI allI impI)
    show "k < length [0..<length p]" using assms(1) by simp
    show "\<forall>j\<in>set [0..<length p]. p ! j \<le> p ! ([0..<length p] ! k)"
      using assms(1,2) by simp
    show "k = [0..<length p] ! k" using assms(1) by simp
    fix i assume i: "i < k"
    with assms(1,3) have "p ! i < p ! k" "k \<in> set [0..<length p]" by simp_all
    then show "\<not> (\<forall>j\<in>set [0..<length p]. p ! j \<le> p ! ([0..<length p] ! i))"
      using i assms(1) by (auto intro!: bexI[of _ k])
  qed
  then show ?thesis by (simp add: spec_argmax_def)
qed

text \<open>
  \<^verbatim>\<open>nd.argmax\<close>, the index of the first occurrence of the maximum, is the
  specification's argmax.
\<close>

lemma argmax_row_first_max:
  assumes "z \<noteq> []"
  shows "argmax_row z < length z" and "z ! argmax_row z = Max (set z)"
    and "\<forall>i<argmax_row z. z ! i < Max (set z)"
proof -
  define k where "k = length (takeWhile (\<lambda>v. v \<noteq> Max (set z)) z)"
  have k: "argmax_row z = k"
    using assms by (simp add: argmax_row_def row_max_Max k_def)
  have "Max (set z) \<in> set z"
    using assms by (intro Max_in) simp_all
  then have "takeWhile (\<lambda>v. v \<noteq> Max (set z)) z \<noteq> z"
    by (auto simp: takeWhile_eq_all_conv)
  then have "k \<noteq> length z"
    using takeWhile_eq_take[of "\<lambda>v. v \<noteq> Max (set z)" z] by (auto simp: k_def)
  then have lt: "k < length z"
    using length_takeWhile_le[of "\<lambda>v. v \<noteq> Max (set z)" z] by (simp add: k_def)
  from nth_length_takeWhile[of "\<lambda>v. v \<noteq> Max (set z)" z] lt
  have mx: "z ! k = Max (set z)"
    by (simp add: k_def)
  have "z ! i < Max (set z)" if "i < k" for i
  proof -
    from that have "takeWhile (\<lambda>v. v \<noteq> Max (set z)) z ! i = z ! i"
      unfolding k_def by (rule takeWhile_nth)
    moreover from that have "takeWhile (\<lambda>v. v \<noteq> Max (set z)) z ! i
        \<in> set (takeWhile (\<lambda>v. v \<noteq> Max (set z)) z)"
      unfolding k_def by (rule nth_mem)
    ultimately have "z ! i \<noteq> Max (set z)"
      using set_takeWhileD by fastforce
    moreover have "z ! i \<le> Max (set z)"
      using that lt by (intro Max_ge) simp_all
    ultimately show ?thesis by simp
  qed
  with lt mx show "argmax_row z < length z" "z ! argmax_row z = Max (set z)"
    "\<forall>i<argmax_row z. z ! i < Max (set z)"
    by (simp_all add: k)
qed

lemma argmax_row_spec: "argmax_row z = spec_argmax z"
proof (cases "z = []")
  case True
  then show ?thesis by (simp add: argmax_row_def spec_argmax_def)
next
  case False
  have "spec_argmax z = argmax_row z"
  proof (rule spec_argmax_eqI)
    show "argmax_row z < length z"
      by (rule argmax_row_first_max(1)[OF False])
    show "\<forall>j<length z. z ! j \<le> z ! argmax_row z"
      unfolding argmax_row_first_max(2)[OF False] by simp
    show "\<forall>i<argmax_row z. z ! i < z ! argmax_row z"
      unfolding argmax_row_first_max(2)[OF False] by (rule argmax_row_first_max(3)[OF False])
  qed
  then show ?thesis by simp
qed

lemma spec_argmax_first_max:
  assumes "z \<noteq> []"
  shows "spec_argmax z < length z" and "z ! spec_argmax z = Max (set z)"
    and "\<forall>i<spec_argmax z. z ! i < Max (set z)"
  using argmax_row_first_max[OF assms] by (simp_all add: argmax_row_spec)

text \<open>The softmax keeps the argmax of the logits, also where entries underflow.\<close>

lemma spec_argmax_softmax_row: "spec_argmax (softmax_row z) = spec_argmax z"
proof (cases "z = []")
  case True
  then show ?thesis by (simp add: softmax_row_def)
next
  case False
  define k where "k = spec_argmax z"
  define t where "t = (\<Sum>v\<leftarrow>z. float32_exp (v - Max (set z)))"
  have k: "k < length z" "z ! k = Max (set z)" "\<forall>i<k. z ! i < Max (set z)"
    using spec_argmax_first_max[OF False] by (simp_all add: k_def)
  have t: "0 < t"
    using softmax_divisor(1)[OF False] by (simp add: t_def)
  have row: "softmax_row z ! j = float32_exp (z ! j - Max (set z)) / t" if "j < length z" for j
    using softmax_row_nth[OF that] by (simp add: t_def)
  have rk: "softmax_row z ! k = 1 / t"
    using row[OF k(1)] k(2) by (simp add: float32_exp_zero)
  have "spec_argmax (softmax_row z) = k"
  proof (rule spec_argmax_eqI)
    show "k < length (softmax_row z)"
      using k(1) by (simp add: length_softmax_row)
    show "\<forall>j<length (softmax_row z). softmax_row z ! j \<le> softmax_row z ! k"
    proof (intro allI impI)
      fix j assume "j < length (softmax_row z)"
      then have j: "j < length z" by (simp add: length_softmax_row)
      then have "z ! j \<le> Max (set z)" by (intro Max_ge) simp_all
      then have "float32_exp (z ! j - Max (set z)) \<le> 1"
        by (intro float32_exp_le_one) simp
      then show "softmax_row z ! j \<le> softmax_row z ! k"
        unfolding rk row[OF j] using t by (simp add: divide_right_mono)
    qed
    show "\<forall>i<k. softmax_row z ! i < softmax_row z ! k"
    proof (intro allI impI)
      fix i assume i: "i < k"
      with k(1) have il: "i < length z" by simp
      from k(3) i have "float32_exp (z ! i - Max (set z)) < 1"
        by (intro float32_exp_less_one) simp
      then show "softmax_row z ! i < softmax_row z ! k"
        unfolding rk row[OF il] using t by (simp add: divide_strict_right_mono)
    qed
  qed
  then show ?thesis by (simp add: k_def)
qed

subsection \<open>The concrete states\<close>

lemma wf_example_state: "wf_params example_state"
  by (simp add: example_state_def wf_params_def wf_ndarray_def)

lemma wf_example_batch: "wf_batch example_batch"
  by (simp add: example_batch_def wf_batch_def)


lemma wf_shuffled_state: "wf_params shuffled_state"
  by (simp add: shuffled_state_def example_state_def wf_params_def wf_ndarray_def)

subsection \<open>The model\<close>

lemma map2_map_upt:
  "length v = n \<Longrightarrow> map2 g (map f [0..<n]) v = map (\<lambda>j. g (f j) (v ! j)) [0..<n]"
  by (rule nth_equalityI) auto


lemma length_spec_softmax: "length (spec_softmax z) = length z"
  by (simp add: spec_softmax_def)

text \<open>With weights that are all zero, the logits of every input are the biases.\<close>

lemma spec_affine_zero_weights:
  assumes "data (W s) = replicate 7840 0" and "length (data (b s)) = 10"
  shows "spec_affine s x = data (b s)"
proof -
  have "(\<Sum>k\<leftarrow>[0..<784]. x ! k * data (W s) ! (k * 10 + j)) = 0" if "j < 10" for j
  proof -
    have "map (\<lambda>k. x ! k * data (W s) ! (k * 10 + j)) [0..<784] = map (\<lambda>k. 0) [0..<784]"
      using that by (intro map_cong refl) (simp add: assms(1))
    then have "(\<Sum>k\<leftarrow>[0..<784]. x ! k * data (W s) ! (k * 10 + j))
        = sum_list (map (\<lambda>k. 0::real) [0..<784])"
      by (simp only:)
    also have "\<dots> = 0"
      by simp
    finally show ?thesis .
  qed
  then have "spec_affine s x = map (\<lambda>j. data (b s) ! j) [0..<10]"
    unfolding spec_affine_def by (intro map_cong refl) simp
  also have "\<dots> = data (b s)"
    using assms(2) map_nth[of "data (b s)"] by simp
  finally show ?thesis .
qed

lemma spec_affine_example: "spec_affine example_state x = replicate 10 0"
  using spec_affine_zero_weights[of example_state x] by (simp add: example_state_def)


lemma spec_affine_shuffled: "spec_affine shuffled_state x = [0, 0, 0, 1, 0, 0, 0, 0, 0, 0]"
  using spec_affine_zero_weights[of shuffled_state x]
  by (simp add: shuffled_state_def example_state_def)

text \<open>
  On a batch of vectors of length 784, \<^verbatim>\<open>net\<close> returns the float32 softmax of the
  logits of each vector.
\<close>

lemma net_rows:
  assumes "wf_params s" and "\<forall>x\<in>set X. length x = 784"
  shows "net s X = Inr (map (\<lambda>x. softmax_row (spec_affine s x)) X)"
proof -
  from assms(1) have sh: "shape (W s) = [784, 10]" "shape (b s) = [10]" "length (data (b s)) = 10"
    by (simp_all add: wf_params_def wf_ndarray_def)
  have "broadcast_add (nd_dot X 784 10 (data (W s))) (data (b s)) = map (spec_affine s) X"
    unfolding broadcast_add_def nd_dot_def spec_affine_def
    by (simp add: map2_map_upt[OF sh(3)] comp_def)
  then show ?thesis
    using assms(2) sh by (simp add: net_def nd_softmax_def comp_def Let_def)
qed





subsection \<open>The loss\<close>

lemma one_hot_row_pick:
  assumes "spec_one_hot_row r c" and "length q = length r"
  shows "sum_list (map2 (*) r q) = q ! c"
proof -
  have "sum_list (map2 (*) r q) = (\<Sum>j = 0..<length r. r ! j * q ! j)"
    using assms(2) by (simp add: sum_list_sum_nth)
  also have "\<dots> = (\<Sum>j = 0..<length r. if j = c then q ! j else 0)"
    using assms(1) by (intro sum.cong) (auto simp: spec_one_hot_row_def)
  also have "\<dots> = q ! c"
    using assms(1) by (simp add: spec_one_hot_row_def)
  finally show ?thesis .
qed

lemma one_hot_is_one_hot:
  "i < length label \<Longrightarrow> label ! i < depth \<Longrightarrow> spec_one_hot_row (one_hot label depth ! i) (label ! i)"
  by (simp add: one_hot_def spec_one_hot_row_def)

lemma cross_entropy_one_hot:
  assumes "length yhat = length y" and "length cls = length y"
    and "\<forall>r\<in>set yhat. length r = 10 \<and> (\<forall>p\<in>set r. 0 < p \<and> p \<le> 1)"
    and "\<forall>r\<in>set y. length r = 10"
    and "\<forall>i<length y. spec_one_hot_row (y ! i) (cls ! i)"
  shows "cross_entropy yhat y = Inr (map2 (\<lambda>r c. - ln (r ! c)) yhat cls)"
proof -
  have shape: "map length yhat = map length y"
    using assms(1,3,4) by (intro nth_equalityI) auto
  have pos: "\<not> (\<exists>r\<in>set yhat. \<exists>p\<in>set r. p \<le> 0)"
    using assms(3) by force
  have "nd_neg (nd_sum_exclude0 (nd_mul y (nd_log yhat))) = map2 (\<lambda>r c. - ln (r ! c)) yhat cls"
  proof (rule nth_equalityI)
    show "length (nd_neg (nd_sum_exclude0 (nd_mul y (nd_log yhat))))
        = length (map2 (\<lambda>r c. - ln (r ! c)) yhat cls)"
      using assms(1,2) by (simp add: nd_neg_def nd_sum_exclude0_def nd_mul_def nd_log_def)
  next
    fix i assume "i < length (nd_neg (nd_sum_exclude0 (nd_mul y (nd_log yhat))))"
    then have i: "i < length y" "i < length yhat" "i < length cls"
      using assms(1,2) by (simp_all add: nd_neg_def nd_sum_exclude0_def nd_mul_def nd_log_def)
    have len: "length (map ln (yhat ! i)) = length (y ! i)"
      using i assms(3,4) by simp
    have c: "cls ! i < length (yhat ! i)"
      using i assms(3,4,5) by (auto simp: spec_one_hot_row_def)
    have "nd_neg (nd_sum_exclude0 (nd_mul y (nd_log yhat))) ! i
        = - sum_list (map2 (*) (y ! i) (map ln (yhat ! i)))"
      using i by (simp add: nd_neg_def nd_sum_exclude0_def nd_mul_def nd_log_def)
    also have "\<dots> = - ln (yhat ! i ! (cls ! i))"
    proof -
      from assms(5) i(1) have "spec_one_hot_row (y ! i) (cls ! i)" by blast
      from one_hot_row_pick[OF this len] c show ?thesis by simp
    qed
    finally show "nd_neg (nd_sum_exclude0 (nd_mul y (nd_log yhat))) ! i
        = map2 (\<lambda>r c. - ln (r ! c)) yhat cls ! i"
      using i by simp
  qed
  with shape pos show ?thesis
    by (simp add: cross_entropy_def)
qed

text \<open>
  C2. For predictions \<open>yhat\<close> of shape \<open>N \<times> 10\<close> with entries in \<open>(0, 1]\<close> and a one-hot
  label matrix \<open>y\<close> of the same shape, whose row \<open>i\<close> has its one at the class \<open>cls ! i\<close>,
  \<^verbatim>\<open>cross_entropy(yhat, y)\<close> returns a vector of length \<open>N\<close> whose entry \<open>i\<close> is minus
  the logarithm of the probability that \<open>yhat\<close> gives to the class \<open>cls ! i\<close> of sample \<open>i\<close>.
\<close>

theorem cross_entropy_nll:
  assumes "length yhat = length y" and "length cls = length y"
    and "\<forall>r\<in>set yhat. length r = 10 \<and> (\<forall>p\<in>set r. 0 < p \<and> p \<le> 1)"
    and "\<forall>r\<in>set y. length r = 10"
    and "\<forall>i<length y. spec_one_hot_row (y ! i) (cls ! i)"
  shows "\<exists>v. cross_entropy yhat y = Inr v \<and> length v = length yhat \<and>
           (\<forall>i<length yhat. v ! i = - ln (yhat ! i ! (cls ! i)))"
  unfolding cross_entropy_one_hot[OF assms] using assms(1,2) by simp

theorem cross_entropy_nll_witness:
  "\<exists>v. cross_entropy [replicate 10 (1/10)] (one_hot [3] 10) = Inr v \<and> v = [ln 10]"
proof -
  have h: "\<forall>i<length (one_hot [3] 10). spec_one_hot_row (one_hot [3] 10 ! i) ([3] ! i)"
    using one_hot_is_one_hot[of 0 "[3]" 10] by (simp add: one_hot_def)
  show ?thesis
    using cross_entropy_nll[of "[replicate 10 (1/10)]" "one_hot [3] 10" "[3]"] h
    by (auto simp: one_hot_def ln_div length_Suc_conv)
qed


subsection \<open>The evaluation loop\<close>

lemma get_set_iter [simp]: "get_iter (set_iter r it s) r = it"
  by (cases r) simp_all

lemma set_set_iter [simp]: "set_iter r it (set_iter r it' s) = set_iter r it s"
  by (cases r) simp_all

lemma set_get_iter [simp]: "set_iter r (get_iter s r) s = s"
  by (cases r) simp_all

lemma params_set_iter [simp]: "W (set_iter r it s) = W s" "b (set_iter r it s) = b s"
  by (cases r; simp)+

lemma iter_next_state:
  "iter_next r s = (x, s') \<Longrightarrow> \<exists>k. s' = set_iter r ((get_iter s r)\<lparr>cursor := k\<rparr>) s"
  by (auto simp: iter_next_def Let_def split: if_splits intro: exI[of _ "cursor (get_iter s r)"])

text \<open>The loop changes nothing but the position of the iterator it reads.\<close>

lemma evaluate_loop_state:
  "\<exists>k. snd (evaluate_loop r num den s) = set_iter r ((get_iter s r)\<lparr>cursor := k\<rparr>) s"
proof (induction r num den s rule: evaluate_loop.induct)
  case (1 r num den s)
  obtain x s' where nx: "iter_next r s = (x, s')"
    by (cases "iter_next r s")
  from iter_next_state[OF nx] obtain k0 where
    s': "s' = set_iter r ((get_iter s r)\<lparr>cursor := k0\<rparr>) s" ..
  show ?case
  proof (cases x)
    case None
    with nx s' show ?thesis
      by (subst evaluate_loop.simps) auto
  next
    case (Some batch)
    show ?thesis
    proof (cases "accuracy_batch s' batch")
      case (Inl e)
      with nx Some s' show ?thesis
        by (subst evaluate_loop.simps) auto
    next
      case (Inr cn)
      obtain c n where cn: "cn = (c, n)" by (cases cn)
      from "1.IH"[OF nx[symmetric] Some Inr[unfolded cn] refl] obtain k where
        "snd (evaluate_loop r (num + c) (den + n) s') = set_iter r ((get_iter s' r)\<lparr>cursor := k\<rparr>) s'"
        by blast
      with nx Some Inr cn s' show ?thesis
        by (subst evaluate_loop.simps) auto
    qed
  qed
qed

text \<open>
  After a call, the iterator is in the pass that the call's reset started, at some
  position; nothing else has changed.
\<close>

lemma evaluate_accuracy_state:
  "\<exists>k. snd (evaluate_accuracy r s)
     = set_iter r ((get_iter (iter_reset r s) r)\<lparr>cursor := k\<rparr>) (iter_reset r s)"
proof -
  have "snd (evaluate_accuracy r s) = snd (evaluate_loop r 0 0 (iter_reset r s))"
    by (auto simp: evaluate_accuracy_def split: prod.splits sum.splits)
  then show ?thesis
    using evaluate_loop_state[of r 0 0 "iter_reset r s"] by simp
qed

lemma evaluate_accuracy_params:
  "W (snd (evaluate_accuracy r s)) = W s" "b (snd (evaluate_accuracy r s)) = b s"
  using evaluate_accuracy_state[of r s] by (auto simp: iter_reset_def Let_def)

lemma evaluate_accuracy_future:
  "future (get_iter (snd (evaluate_accuracy r s)) r) k = future (get_iter s r) (Suc k)"
  using evaluate_accuracy_state[of r s] by (auto simp: iter_reset_def Let_def)


text \<open>The body of the loop reads the state through \<^verbatim>\<open>net\<close> only.\<close>

lemma net_cong: "W s' = W s \<Longrightarrow> b s' = b s \<Longrightarrow> net s' = net s"
  by (simp add: net_def fun_eq_iff cong: list.case_cong if_cong)

lemma accuracy_batch_cong:
  assumes "W s' = W s" and "b s' = b s"
  shows "accuracy_batch s' = accuracy_batch s"
proof -
  have n: "net s' = net s"
    using assms by (rule net_cong)
  show ?thesis
    by (rule ext) (simp only: accuracy_batch_def n)
qed

lemma accuracy_batches_cong:
  "accuracy_batch s' = accuracy_batch s
    \<Longrightarrow> accuracy_batches s' bts num den = accuracy_batches s bts num den"
  by (induction bts arbitrary: num den) (simp_all split: sum.splits)

text \<open>The loop over the iterator is the loop over the batches that the iterator has left.\<close>

lemma evaluate_loop_batches:
  "fst (evaluate_loop r num den s)
     = accuracy_batches s (drop (cursor (get_iter s r)) (batches (get_iter s r))) num den"
proof (induction r num den s rule: evaluate_loop.induct)
  case (1 r num den s)
  define it where "it = get_iter s r"
  show ?case
  proof (cases "cursor it < length (batches it)")
    case False
    then have "iter_next r s = (None, s)"
      by (simp add: iter_next_def it_def)
    with False show ?thesis
      by (subst evaluate_loop.simps) (simp add: it_def)
  next
    case True
    define batch where "batch = batches it ! cursor it"
    define s' where "s' = set_iter r (it\<lparr>cursor := Suc (cursor it)\<rparr>) s"
    have nx: "iter_next r s = (Some batch, s')"
      using True by (simp add: iter_next_def it_def batch_def s'_def Let_def)
    have ab: "accuracy_batch s' = accuracy_batch s"
      by (rule accuracy_batch_cong) (simp_all add: s'_def)
    have dr: "drop (cursor it) (batches it) = batch # drop (Suc (cursor it)) (batches it)"
      using True by (simp add: batch_def Cons_nth_drop_Suc)
    have it': "drop (cursor (get_iter s' r)) (batches (get_iter s' r)) = drop (Suc (cursor it)) (batches it)"
      by (simp add: s'_def)
    show ?thesis
    proof (cases "accuracy_batch s batch")
      case (Inl e)
      then show ?thesis
        by (subst evaluate_loop.simps) (simp add: nx ab it_def[symmetric] dr)
    next
      case (Inr cn)
      obtain c n where cn: "cn = (c, n)" by (cases cn)
      have "accuracy_batch s' batch = Inr (c, n)"
        using Inr cn ab by simp
      from "1.IH"[OF nx[symmetric] refl this refl]
      have "fst (evaluate_loop r (num + c) (den + n) s')
          = accuracy_batches s (drop (Suc (cursor it)) (batches it)) (num + c) (den + n)"
        unfolding it' by (simp add: accuracy_batches_cong[OF ab])
      then show ?thesis
        by (subst evaluate_loop.simps) (simp add: nx ab Inr cn it_def[symmetric] dr)
    qed
  qed
qed

text \<open>
  The value of a call is determined by the parameters and by the batches of the pass
  that the reset starts.
\<close>

lemma evaluate_accuracy_batches:
  "fst (evaluate_accuracy r s)
     = (case accuracy_batches s (future (get_iter s r) 0) 0 0 of
          Inl e \<Rightarrow> Inl e
        | Inr (numerator, denominator) \<Rightarrow>
            if denominator = 0 then Inl ZeroDivisionError else Inr (numerator / denominator))"
proof -
  have ab: "accuracy_batch (iter_reset r s) = accuracy_batch s"
    by (rule accuracy_batch_cong) (simp_all add: iter_reset_def Let_def)
  have "fst (evaluate_loop r 0 0 (iter_reset r s)) = accuracy_batches s (future (get_iter s r) 0) 0 0"
    unfolding evaluate_loop_batches by (simp add: iter_reset_def Let_def accuracy_batches_cong[OF ab[unfolded iter_reset_def Let_def]])
  then show ?thesis
    by (auto simp: evaluate_accuracy_def split: prod.splits sum.splits)
qed

lemma evaluate_accuracy_cong:
  assumes "W s' = W s" and "b s' = b s" and "future (get_iter s' r) 0 = future (get_iter s r) 0"
  shows "fst (evaluate_accuracy r s') = fst (evaluate_accuracy r s)"
  unfolding evaluate_accuracy_batches assms(3)
  by (simp add: accuracy_batches_cong[OF accuracy_batch_cong[OF assms(1,2)]])

text \<open>A pass without batches: the loop body never runs, and the division raises.\<close>

lemma evaluate_accuracy_empty:
  "future (get_iter s r) 0 = [] \<Longrightarrow> fst (evaluate_accuracy r s) = Inl ZeroDivisionError"
  unfolding evaluate_accuracy_batches by simp

text \<open>The prediction of the Model, and the class it predicts, in terms of the logits.\<close>

lemma spec_prediction_softmax:
  assumes "wf_params s" and "length x = 784"
  shows "spec_prediction s x = softmax_row (spec_affine s x)"
proof -
  have "\<forall>x'\<in>set [x]. length x' = 784"
    using assms(2) by simp
  from net_rows[OF assms(1) this] show ?thesis
    by (simp add: spec_prediction_def)
qed

lemma spec_predicted_class_logits:
  assumes "wf_params s" and "length x = 784"
  shows "spec_predicted_class s x = spec_argmax (spec_affine s x)"
  by (simp add: spec_predicted_class_def spec_prediction_softmax[OF assms] spec_argmax_softmax_row)

lemma spec_correct_cong:
  assumes "W s' = W s" and "b s' = b s"
  shows "spec_correct s' = spec_correct s"
proof -
  have "net s' = net s"
    using assms by (rule net_cong)
  then show ?thesis
    by (simp add: spec_correct_def spec_predicted_class_def spec_prediction_def fun_eq_iff)
qed

lemma sum_list_nd_equal:
  "sum_list (nd_equal (map f xs) ys) = real (length (filter (\<lambda>(x, l). f x = l) (zip xs ys)))"
proof (induction xs arbitrary: ys)
  case Nil
  then show ?case by (simp add: nd_equal_def)
next
  case (Cons x xs)
  then show ?case
    by (cases ys) (auto simp: nd_equal_def)
qed

lemma reshape_rows_wf:
  assumes "wf_batch batch"
  shows "reshape_rows 784 (batch_data batch)
    = Inr (map (\<lambda>i. take 784 (drop (i * 784) (batch_data batch))) [0..<length (batch_label batch)])"
  using assms by (auto simp: reshape_rows_def wf_batch_def)

lemma accuracy_batch_wf:
  assumes "wf_params s" and "wf_batch batch"
  shows "accuracy_batch s batch
    = Inr (real (spec_correct s (spec_samples batch)), real (length (spec_samples batch)))"
proof -
  define rows where "rows = map (\<lambda>i. take 784 (drop (i * 784) (batch_data batch))) [0..<length (batch_label batch)]"
  have len: "\<forall>x\<in>set rows. length x = 784"
  proof
    fix x assume "x \<in> set rows"
    then obtain i where i: "i < length (batch_label batch)" and x: "x = take 784 (drop (i * 784) (batch_data batch))"
      by (auto simp: rows_def)
    from i have "i * 784 + 784 \<le> 784 * length (batch_label batch)" by simp
    with assms(2) show "length x = 784"
      by (simp add: x wf_batch_def)
  qed
  have "map argmax_row (map (\<lambda>x. softmax_row (spec_affine s x)) rows) = map (spec_predicted_class s) rows"
    unfolding map_map
  proof (intro map_cong refl)
    fix x assume "x \<in> set rows"
    with len have "length x = 784" by blast
    then show "(argmax_row \<circ> (\<lambda>x. softmax_row (spec_affine s x))) x = spec_predicted_class s x"
      by (simp add: argmax_row_spec spec_predicted_class_def spec_prediction_softmax[OF assms(1)])
  qed
  then have am: "nd_argmax (map (\<lambda>x. softmax_row (spec_affine s x)) rows) = map (spec_predicted_class s) rows"
    by (simp only: nd_argmax_def)
  have lr: "length rows = length (batch_label batch)"
    by (simp add: rows_def)
  have rs: "reshape_rows 784 (batch_data batch) = Inr rows"
    using reshape_rows_wf[OF assms(2)] by (simp add: rows_def)
  have sm: "spec_samples batch = zip rows (batch_label batch)"
    by (simp add: spec_samples_def rows_def)
  show ?thesis
    unfolding accuracy_batch_def rs sm
    by (simp add: net_rows[OF assms(1) len] am lr Let_def sum_list_nd_equal spec_correct_def)
qed

lemma spec_correct_append:
  "spec_correct s (xs @ ys) = spec_correct s xs + spec_correct s ys"
  by (simp add: spec_correct_def)

lemma accuracy_batches_wf:
  assumes "wf_params s" and "\<forall>batch\<in>set bts. wf_batch batch"
  shows "accuracy_batches s bts num den
    = Inr (num + real (spec_correct s (concat (map spec_samples bts))),
           den + real (length (concat (map spec_samples bts))))"
  using assms(2)
proof (induction bts arbitrary: num den)
  case Nil
  then show ?case by (simp add: spec_correct_def)
next
  case (Cons bt bts)
  from Cons.prems have "wf_batch bt" and rest: "\<forall>batch\<in>set bts. wf_batch batch"
    by simp_all
  from accuracy_batch_wf[OF assms(1) this(1)] Cons.IH[OF rest] show ?case
    by (simp add: spec_correct_append add.assoc)
qed

lemma spec_correct_le: "spec_correct s xs \<le> length xs"
  by (simp add: spec_correct_def)

lemma evaluate_accuracy_value:
  assumes "wf_params s" and "future (get_iter s r) 0 \<noteq> []"
    and "\<forall>batch\<in>set (future (get_iter s r) 0). wf_batch batch"
  shows "\<exists>a. fst (evaluate_accuracy r s) = Inr a \<and>
           a = real (spec_correct s (spec_presented s r)) / real (length (spec_presented s r)) \<and>
           0 \<le> a \<and> a \<le> 1"
proof -
  define S where "S = spec_presented s r"
  have v: "accuracy_batches s (future (get_iter s r) 0) 0 0 = Inr (real (spec_correct s S), real (length S))"
    using accuracy_batches_wf[OF assms(1,3), of 0 0] by (simp add: S_def spec_presented_def)
  obtain b0 where b0: "b0 \<in> set (future (get_iter s r) 0)"
    using assms(2) by (cases "future (get_iter s r) 0") auto
  with assms(3) have "spec_samples b0 \<noteq> []"
    by (auto simp: wf_batch_def spec_samples_def)
  with b0 have "S \<noteq> []"
    by (auto simp: S_def spec_presented_def)
  then have pos: "0 < length S" by simp
  have "fst (evaluate_accuracy r s) = Inr (real (spec_correct s S) / real (length S))"
    unfolding evaluate_accuracy_batches v using pos by simp
  moreover have "real (spec_correct s S) / real (length S) \<le> 1"
    using pos spec_correct_le[of s S] by simp
  ultimately show ?thesis
    unfolding S_def by simp
qed

text \<open>
  C3, as amended. A call of \<^verbatim>\<open>evaluate_accuracy\<close> resets the iterator and reads the
  pass that the reset starts. If that pass has no batch, the call raises
  \<^verbatim>\<open>ZeroDivisionError\<close> and returns no value. If it has at least one batch, every
  batch made of samples of 784 pixels with their labels, and the parameters have the
  shapes \<open>784 \<times> 10\<close> and \<open>10\<close>, the call returns the number of presented samples whose
  predicted class (the argmax of the Model's prediction) is their label, divided by the
  number of presented samples; the value lies between 0 and 1. The presented samples
  are those of the batches as the iterator hands them out, a sample that fills up the
  last batch counted again.
\<close>

theorem evaluate_accuracy_fraction:
  "(future (get_iter s r) 0 = [] \<longrightarrow> fst (evaluate_accuracy r s) = Inl ZeroDivisionError) \<and>
   (wf_params s \<and> future (get_iter s r) 0 \<noteq> [] \<and>
    (\<forall>batch\<in>set (future (get_iter s r) 0). wf_batch batch) \<longrightarrow>
      (\<exists>a. fst (evaluate_accuracy r s) = Inr a \<and>
         a = real (spec_correct s (spec_presented s r)) / real (length (spec_presented s r)) \<and>
         0 \<le> a \<and> a \<le> 1))"
  using evaluate_accuracy_empty[of s r] evaluate_accuracy_value[of s r] by blast

text \<open>The state whose bias favours class 3 predicts class 3 for every image.\<close>

lemma spec_argmax_shuffled: "spec_argmax [0, 0, 0, 1, 0, 0, 0, 0, 0, 0] = 3"
  unfolding argmax_row_spec[symmetric] by (simp add: argmax_row_def row_max_def)

lemma spec_predicted_class_shuffled:
  "length x = 784 \<Longrightarrow> spec_predicted_class shuffled_state x = 3"
  using spec_predicted_class_logits[OF wf_shuffled_state, of x]
  by (simp add: spec_affine_shuffled spec_argmax_shuffled)

lemma spec_samples_batch_of_labels:
  "spec_samples (batch_of_labels ls) = map (\<lambda>l. (replicate 784 0, l)) ls"
proof -
  have "take 784 (drop (i * 784) (replicate (784 * length ls) (0::real))) = replicate 784 0"
    if "i < length ls" for i
  proof -
    from that have "i * 784 + 784 \<le> 784 * length ls" by simp
    then have "min 784 (784 * length ls - i * 784) = 784" by simp
    then show ?thesis by simp
  qed
  then have rows: "map (\<lambda>i. take 784 (drop (i * 784) (replicate (784 * length ls) (0::real)))) [0..<length ls]
      = map (\<lambda>i. replicate 784 0) [0..<length ls]"
    by (intro map_cong refl) simp
  have pairs: "zip (map (\<lambda>i. replicate 784 (0::real)) [0..<length ls]) ls
      = map (\<lambda>l. (replicate 784 0, l)) ls"
    by (rule nth_equalityI) simp_all
  have fields: "batch_label (batch_of_labels ls) = ls"
    "batch_data (batch_of_labels ls) = replicate (784 * length ls) 0"
    by (simp_all add: batch_of_labels_def)
  show ?thesis
    unfolding spec_samples_def fields rows pairs ..
qed

lemma wf_batch_of_labels: "ls \<noteq> [] \<Longrightarrow> wf_batch (batch_of_labels ls)"
  by (simp add: wf_batch_def batch_of_labels_def)

lemma spec_correct_shuffled:
  assumes "W s = W shuffled_state" and "b s = b shuffled_state"
  shows "spec_correct s (concat (map spec_samples (map batch_of_labels lss)))
    = length (filter (\<lambda>l. l = 3) (concat lss))"
proof -
  have one: "spec_correct shuffled_state (map (\<lambda>l. (replicate 784 0, l)) ls)
      = length (filter (\<lambda>l. l = 3) ls)" for ls
    by (induction ls) (simp_all add: spec_correct_def spec_predicted_class_shuffled)
  have none: "spec_correct shuffled_state [] = 0"
    by (simp add: spec_correct_def)
  have "spec_correct shuffled_state (concat (map spec_samples (map batch_of_labels lss)))
    = length (filter (\<lambda>l. l = 3) (concat lss))"
    by (induction lss) (simp_all add: spec_correct_append spec_samples_batch_of_labels one none)
  then show ?thesis
    by (simp add: spec_correct_cong[OF assms])
qed

lemma length_samples_batch_of_labels:
  "length (concat (map spec_samples (map batch_of_labels lss))) = length (concat lss)"
  by (induction lss) (simp_all add: spec_samples_batch_of_labels)

lemma future_shuffled:
  "future (get_iter shuffled_state Test) 0 = map batch_of_labels [[3, 3], [0, 3]]"
  "future (get_iter shuffled_state Test) (Suc k) = map batch_of_labels [[0, 3], [3, 0]]"
  by (simp_all add: shuffled_state_def)

lemma evaluate_accuracy_shuffled_first:
  "fst (evaluate_accuracy Test shuffled_state) = Inr (3 / 4)"
proof -
  have "\<forall>batch\<in>set (future (get_iter shuffled_state Test) 0). wf_batch batch"
    unfolding future_shuffled by (simp add: wf_batch_of_labels)
  moreover have "future (get_iter shuffled_state Test) 0 \<noteq> []"
    unfolding future_shuffled by simp
  ultimately show ?thesis
    using evaluate_accuracy_value[OF wf_shuffled_state, of Test]
    unfolding spec_presented_def future_shuffled
      spec_correct_shuffled[OF refl refl] length_samples_batch_of_labels
    by auto
qed

lemma evaluate_accuracy_shuffled_second:
  "fst (evaluate_accuracy Test (snd (evaluate_accuracy Test shuffled_state))) = Inr (1 / 2)"
proof -
  define s1 where "s1 = snd (evaluate_accuracy Test shuffled_state)"
  have p: "W s1 = W shuffled_state" "b s1 = b shuffled_state"
    by (simp_all add: s1_def evaluate_accuracy_params)
  have wf: "wf_params s1"
    using wf_shuffled_state by (simp add: wf_params_def p)
  have f: "future (get_iter s1 Test) 0 = map batch_of_labels [[0, 3], [3, 0]]"
    unfolding s1_def evaluate_accuracy_future by (rule future_shuffled(2))
  have "\<forall>batch\<in>set (future (get_iter s1 Test) 0). wf_batch batch"
    unfolding f by (simp add: wf_batch_of_labels)
  moreover have "future (get_iter s1 Test) 0 \<noteq> []"
    unfolding f by simp
  ultimately have "fst (evaluate_accuracy Test s1) = Inr (1 / 2)"
    using evaluate_accuracy_value[OF wf, of Test]
    unfolding spec_presented_def f spec_correct_shuffled[OF p] length_samples_batch_of_labels
    by auto
  then show ?thesis by (simp add: s1_def)
qed

theorem evaluate_accuracy_fraction_witness:
  "fst (evaluate_accuracy Test empty_test_state) = Inl ZeroDivisionError \<and>
   (\<exists>a. fst (evaluate_accuracy Test shuffled_state) = Inr a \<and> a = 3 / 4)"
proof -
  have e: "future (get_iter empty_test_state Test) 0 = []"
    by (simp add: empty_test_state_def)
  have wfb: "\<forall>batch\<in>set (future (get_iter shuffled_state Test) 0). wf_batch batch"
    unfolding future_shuffled by (simp add: wf_batch_of_labels)
  have ne: "future (get_iter shuffled_state Test) 0 \<noteq> []"
    unfolding future_shuffled by simp
  have c: "spec_correct shuffled_state (spec_presented shuffled_state Test) = 3"
    unfolding spec_presented_def future_shuffled spec_correct_shuffled[OF refl refl] by simp
  have l: "length (spec_presented shuffled_state Test) = 4"
    unfolding spec_presented_def future_shuffled length_samples_batch_of_labels by simp
  from evaluate_accuracy_fraction[of empty_test_state Test] e
  have "fst (evaluate_accuracy Test empty_test_state) = Inl ZeroDivisionError"
    by blast
  moreover from evaluate_accuracy_fraction[of shuffled_state Test] wf_shuffled_state wfb ne
  have "\<exists>a. fst (evaluate_accuracy Test shuffled_state) = Inr a \<and> a = 3 / 4"
    unfolding c l by auto
  ultimately show ?thesis ..
qed

text \<open>
  The claim C3 as it was stated, for every finite iterator, fails for the iterator
  without batches: the loop body never runs and the final division is \<^verbatim>\<open>0. / 0.\<close>
  on Python floats.
\<close>

theorem evaluate_accuracy_empty_counterexample:
  "fst (evaluate_accuracy Test empty_test_state) = Inl ZeroDivisionError"
  by (simp add: evaluate_accuracy_def iter_reset_def empty_test_state_def example_state_def
      evaluate_loop.simps[of Test 0 0] iter_next_def)

text \<open>
  C8. A call of \<^verbatim>\<open>evaluate_accuracy\<close> leaves \<^verbatim>\<open>W\<close> and \<^verbatim>\<open>b\<close>, values, shapes
  and gradient buffers, as they were, for every iterator and every state, also when the
  call ends in an exception.
\<close>

theorem evaluate_accuracy_params_unchanged:
  "W (snd (evaluate_accuracy r s)) = W s \<and> b (snd (evaluate_accuracy r s)) = b s"
  by (simp add: evaluate_accuracy_params)

theorem evaluate_accuracy_params_unchanged_witness:
  "W (snd (evaluate_accuracy Test example_state)) = W example_state \<and>
   b (snd (evaluate_accuracy Test example_state)) = b example_state"
  using evaluate_accuracy_params_unchanged[of Test example_state] .

text \<open>The number of correct samples does not depend on their order.\<close>

lemma spec_correct_mset:
  "mset xs = mset ys \<Longrightarrow> spec_correct s xs = spec_correct s ys"
proof -
  assume eq: "mset xs = mset ys"
  have "spec_correct s zs = size (filter_mset (\<lambda>(x, l). spec_predicted_class s x = l) (mset zs))" for zs
    by (simp add: spec_correct_def flip: mset_filter)
  with eq show ?thesis by simp
qed

lemma evaluate_accuracy_same_samples:
  assumes "wf_params s"
    and "\<forall>batch\<in>set (future (get_iter s r) 0). wf_batch batch"
    and "\<forall>batch\<in>set (future (get_iter s r) (Suc 0)). wf_batch batch"
    and "mset (concat (map spec_samples (future (get_iter s r) (Suc 0))))
       = mset (concat (map spec_samples (future (get_iter s r) 0)))"
  shows "fst (evaluate_accuracy r (snd (evaluate_accuracy r s))) = fst (evaluate_accuracy r s)"
proof -
  define s1 where "s1 = snd (evaluate_accuracy r s)"
  define S0 where "S0 = concat (map spec_samples (future (get_iter s r) 0))"
  define S1 where "S1 = concat (map spec_samples (future (get_iter s r) (Suc 0)))"
  have p: "W s1 = W s" "b s1 = b s"
    by (simp_all add: s1_def evaluate_accuracy_params)
  have f: "future (get_iter s1 r) 0 = future (get_iter s r) (Suc 0)"
    by (simp add: s1_def evaluate_accuracy_future)
  have ab: "accuracy_batch s1 = accuracy_batch s"
    by (rule accuracy_batch_cong[OF p])
  have c: "spec_correct s S1 = spec_correct s S0"
    using assms(4) by (intro spec_correct_mset) (simp add: S0_def S1_def)
  have l: "length S1 = length S0"
    using assms(4) mset_eq_length[of S1 S0] by (simp add: S0_def S1_def)
  have "accuracy_batches s1 (future (get_iter s1 r) 0) 0 0
      = accuracy_batches s (future (get_iter s r) 0) 0 0"
    unfolding f accuracy_batches_cong[OF ab]
      accuracy_batches_wf[OF assms(1,3)] accuracy_batches_wf[OF assms(1,2)]
    using c l by (simp add: S0_def S1_def)
  then show ?thesis
    unfolding evaluate_accuracy_batches s1_def[symmetric] by simp
qed

text \<open>
  C10, as amended. \<^verbatim>\<open>evaluate_accuracy\<close> resets the iterator before it reads it: its
  result is the same from every position of the iterator, whatever is left of the
  current pass. A second call, made in the state that the first call left, reads the
  pass that its own reset starts. It returns what the first call returned if that pass
  holds the same batches as the pass of the first call, as it does for an iterator that
  does not shuffle; and also if, for well-formed parameters and batches, the two passes
  present the same samples equally often in some order. The notebook's iterators
  shuffle at every reset and fill up the last batch, so that the two passes can present
  different samples, and then the two results can differ.
\<close>

theorem evaluate_accuracy_repeatable:
  "fst (evaluate_accuracy r (set_iter r ((get_iter s r)\<lparr>batches := bts, cursor := k\<rparr>) s))
     = fst (evaluate_accuracy r s) \<and>
   (future (get_iter s r) (Suc 0) = future (get_iter s r) 0 \<longrightarrow>
      fst (evaluate_accuracy r (snd (evaluate_accuracy r s))) = fst (evaluate_accuracy r s)) \<and>
   (wf_params s \<and>
    (\<forall>batch\<in>set (future (get_iter s r) 0). wf_batch batch) \<and>
    (\<forall>batch\<in>set (future (get_iter s r) (Suc 0)). wf_batch batch) \<and>
    mset (concat (map spec_samples (future (get_iter s r) (Suc 0))))
      = mset (concat (map spec_samples (future (get_iter s r) 0))) \<longrightarrow>
      fst (evaluate_accuracy r (snd (evaluate_accuracy r s))) = fst (evaluate_accuracy r s))"
proof (intro conjI impI)
  show "fst (evaluate_accuracy r (set_iter r ((get_iter s r)\<lparr>batches := bts, cursor := k\<rparr>) s))
     = fst (evaluate_accuracy r s)"
    by (rule evaluate_accuracy_cong) simp_all
next
  assume "future (get_iter s r) (Suc 0) = future (get_iter s r) 0"
  then show "fst (evaluate_accuracy r (snd (evaluate_accuracy r s))) = fst (evaluate_accuracy r s)"
    by (intro evaluate_accuracy_cong) (simp_all add: evaluate_accuracy_params evaluate_accuracy_future)
next
  assume "wf_params s \<and>
    (\<forall>batch\<in>set (future (get_iter s r) 0). wf_batch batch) \<and>
    (\<forall>batch\<in>set (future (get_iter s r) (Suc 0)). wf_batch batch) \<and>
    mset (concat (map spec_samples (future (get_iter s r) (Suc 0))))
      = mset (concat (map spec_samples (future (get_iter s r) 0)))"
  then show "fst (evaluate_accuracy r (snd (evaluate_accuracy r s))) = fst (evaluate_accuracy r s)"
    by (intro evaluate_accuracy_same_samples) simp_all
qed

theorem evaluate_accuracy_repeatable_witness:
  "fst (evaluate_accuracy Train (set_iter Train ((get_iter example_state Train)\<lparr>batches := [], cursor := 1\<rparr>) example_state))
     = fst (evaluate_accuracy Train example_state) \<and>
   fst (evaluate_accuracy Train (snd (evaluate_accuracy Train example_state)))
     = fst (evaluate_accuracy Train example_state) \<and>
   fst (evaluate_accuracy Test (snd (evaluate_accuracy Test permuted_state)))
     = fst (evaluate_accuracy Test permuted_state)"
proof -
  have same: "future (get_iter example_state Train) (Suc 0) = future (get_iter example_state Train) 0"
    by (simp add: example_state_def)
  have f: "future (get_iter permuted_state Test) 0 = [batch_of_labels [3, 0]]"
    "future (get_iter permuted_state Test) (Suc 0) = [batch_of_labels [0, 3]]"
    by (simp_all add: permuted_state_def)
  have wf: "wf_params permuted_state"
    using wf_shuffled_state by (simp add: wf_params_def permuted_state_def)
  have wfb: "\<forall>batch\<in>set (future (get_iter permuted_state Test) 0). wf_batch batch"
    "\<forall>batch\<in>set (future (get_iter permuted_state Test) (Suc 0)). wf_batch batch"
    unfolding f by (simp_all add: wf_batch_of_labels)
  have ms: "mset (concat (map spec_samples (future (get_iter permuted_state Test) (Suc 0))))
      = mset (concat (map spec_samples (future (get_iter permuted_state Test) 0)))"
    unfolding f by (simp add: spec_samples_batch_of_labels add_mset_commute)
  from evaluate_accuracy_repeatable[where r = Train and s = example_state and bts = "[]" and k = 1] same
  have "fst (evaluate_accuracy Train (set_iter Train ((get_iter example_state Train)\<lparr>batches := [], cursor := 1\<rparr>) example_state))
     = fst (evaluate_accuracy Train example_state) \<and>
   fst (evaluate_accuracy Train (snd (evaluate_accuracy Train example_state)))
     = fst (evaluate_accuracy Train example_state)"
    by blast
  moreover from evaluate_accuracy_repeatable[where r = Test and s = permuted_state and bts = "[]" and k = 0]
    wf wfb ms
  have "fst (evaluate_accuracy Test (snd (evaluate_accuracy Test permuted_state)))
     = fst (evaluate_accuracy Test permuted_state)"
    by blast
  ultimately show ?thesis by simp
qed

text \<open>
  The claim C10 as it was stated, a second call returning what the first returned, fails
  for an iterator that shuffles. The three test samples are all predicted as class 3;
  their labels are 3, 3 and 0. The first call reads them in the order 1, 2, 3, the last
  batch filled up with sample 1: three of the four presented samples are right. The
  second call reads them in the order 3, 1, 2, the last batch filled up with sample 3:
  two of four are right.
\<close>

theorem evaluate_accuracy_reshuffle_counterexample:
  "fst (evaluate_accuracy Test shuffled_state) = Inr (3 / 4) \<and>
   fst (evaluate_accuracy Test (snd (evaluate_accuracy Test shuffled_state))) = Inr (1 / 2)"
  using evaluate_accuracy_shuffled_first evaluate_accuracy_shuffled_second by simp

subsection \<open>The optimiser\<close>

lemma get_set_param [simp]: "get_param (set_param r a s) r = a"
  by (cases r) simp_all

lemma get_set_param_other [simp]: "r' \<noteq> r \<Longrightarrow> get_param (set_param r a s) r' = get_param s r'"
  by (cases r; cases r') simp_all

lemma others_set_param [simp]:
  "train_data (set_param r a s) = train_data s"
  "test_data (set_param r a s) = test_data s"
  "moving_loss (set_param r a s) = moving_loss s"
  "printed (set_param r a s) = printed s"
  by (cases r; simp)+

lemma map2_sub_twice:
  "map2 (\<lambda>x g. x - c * g) (map2 (\<lambda>x g. x - a * g) xs gs) gs
     = map2 (\<lambda>x g. x - (a + c) * g) xs (gs :: real list)"
proof (induction xs arbitrary: gs)
  case Nil
  then show ?case by simp
next
  case (Cons x xs)
  then show ?case
    by (cases gs) (simp_all add: algebra_simps)
qed

lemma map2_fst:
  "length gs = length xs \<Longrightarrow> map2 (\<lambda>x g. x) xs gs = xs"
  by (induction xs gs rule: list_induct2') simp_all

lemma SGD_Nil [simp]: "SGD [] lr s = s"
  by (simp add: SGD_def)

lemma SGD_Cons: "SGD (p # ps) lr s = SGD ps lr (set_param p (SGD_update lr (get_param s p)) s)"
  by (simp add: SGD_def)


lemma SGD_get_param:
  assumes "length (grad (get_param s r)) = length (data (get_param s r))"
  shows "get_param (SGD ps lr s) r
     = (get_param s r)\<lparr>data := map2 (\<lambda>x g. x - (real (count_list ps r) * lr) * g)
                                  (data (get_param s r)) (grad (get_param s r))\<rparr>"
  using assms
proof (induction ps arbitrary: s)
  case Nil
  then show ?case by (simp add: map2_fst)
next
  case (Cons p ps)
  let ?s1 = "set_param p (SGD_update lr (get_param s p)) s"
  show ?case
  proof (cases "p = r")
    case True
    have g: "get_param ?s1 r = SGD_update lr (get_param s r)"
      using True by simp
    have len: "length (grad (get_param ?s1 r)) = length (data (get_param ?s1 r))"
      using Cons.prems unfolding g by (simp add: SGD_update_def)
    have "map2 (\<lambda>x g. x - (real (count_list ps r) * lr) * g)
            (map2 (\<lambda>x g. x - lr * g) (data (get_param s r)) (grad (get_param s r)))
            (grad (get_param s r))
        = map2 (\<lambda>x g. x - (real (count_list (p # ps) r) * lr) * g)
            (data (get_param s r)) (grad (get_param s r))"
      unfolding map2_sub_twice using True by (simp add: algebra_simps)
    then show ?thesis
      unfolding SGD_Cons Cons.IH[OF len] g by (simp add: SGD_update_def)
  next
    case False
    then have g: "get_param ?s1 r = get_param s r"
      by simp
    have len: "length (grad (get_param ?s1 r)) = length (data (get_param ?s1 r))"
      using Cons.prems unfolding g .
    show ?thesis
      unfolding SGD_Cons Cons.IH[OF len] g using False by simp
  qed
qed

subsection \<open>The bodies of the training loops\<close>

lemma train_batch_cases:
  obtains (fail) e where "batch_loss batch s = Inl e" "train_batch i batch s = Inl e"
  | (ok) dat yhat loss s2 where
      "reshape_rows 784 (batch_data batch) = Inr dat"
      "net s dat = Inr yhat"
      "batch_loss batch s = Inr loss"
      "s2 = SGD params (1 / 1000) (backward dat yhat (one_hot (batch_label batch) 10) loss s)"
      "train_batch i batch s
         = Inr (s2\<lparr>moving_loss := if i = 0 then nd_mean loss
                                  else 99 / 100 * moving_loss s2 + 1 / 100 * nd_mean loss\<rparr>)"
proof (cases "reshape_rows 784 (batch_data batch)")
  case (Inl e)
  then show ?thesis
    by (intro fail[of e]) (simp_all add: batch_loss_def train_batch_def)
next
  case dat: (Inr dat)
  show ?thesis
  proof (cases "net s dat")
    case (Inl e)
    with dat show ?thesis
      by (intro fail[of e]) (simp_all add: batch_loss_def train_batch_def)
  next
    case out: (Inr yhat)
    show ?thesis
    proof (cases "cross_entropy yhat (one_hot (batch_label batch) 10)")
      case (Inl e)
      with dat out show ?thesis
        by (intro fail[of e]) (simp_all add: batch_loss_def train_batch_def)
    next
      case (Inr loss)
      with dat out show ?thesis
        by (intro ok[of dat yhat loss]) (simp_all add: batch_loss_def train_batch_def Let_def)
    qed
  qed
qed

lemma train_batch_l2_cases:
  obtains (fail) e where "batch_loss batch s = Inl e" "train_batch_l2 l2_strength i batch s = Inl e"
  | (ok) dat yhat ce loss s2 where
      "reshape_rows 784 (batch_data batch) = Inr dat"
      "net s dat = Inr yhat"
      "batch_loss batch s = Inr ce"
      "loss = [sum_list ce + l2_strength * l2_penalty params s]"
      "s2 = SGD params (1 / 1000)
              (backward_l2 l2_strength dat yhat (one_hot (batch_label batch) 10) ce s)"
      "train_batch_l2 l2_strength i batch s
         = Inr (s2\<lparr>moving_loss := if i = 0 then nd_mean loss
                                  else 99 / 100 * moving_loss s2 + 1 / 100 * nd_mean loss\<rparr>)"
proof (cases "reshape_rows 784 (batch_data batch)")
  case (Inl e)
  then show ?thesis
    by (intro fail[of e]) (simp_all add: batch_loss_def train_batch_l2_def)
next
  case dat: (Inr dat)
  show ?thesis
  proof (cases "net s dat")
    case (Inl e)
    with dat show ?thesis
      by (intro fail[of e]) (simp_all add: batch_loss_def train_batch_l2_def)
  next
    case out: (Inr yhat)
    show ?thesis
    proof (cases "cross_entropy yhat (one_hot (batch_label batch) 10)")
      case (Inl e)
      with dat out show ?thesis
        by (intro fail[of e]) (simp_all add: batch_loss_def train_batch_l2_def)
    next
      case (Inr ce)
      with dat out show ?thesis
        by (intro ok[of dat yhat ce]) (simp_all add: batch_loss_def train_batch_l2_def Let_def)
    qed
  qed
qed

lemma map2_add_zeros:
  "length g \<le> length zs \<Longrightarrow> \<forall>z\<in>set zs. z = 0 \<Longrightarrow> map2 (+) g zs = (g :: real list)"
proof (induction g arbitrary: zs)
  case Nil
  then show ?case by simp
next
  case (Cons a g)
  then show ?case by (cases zs) simp_all
qed

lemma l2_penalty_backward_zero:
  "l2_penalty_backward params 0 s r = map (\<lambda>_. 0) (data (get_param s r))"
proof -
  have "map2 (+) (map (\<lambda>_. 0) xs) (map (\<lambda>x. 0) xs) = map (\<lambda>_. 0::real) xs" for xs :: "real list"
    by (induction xs) simp_all
  then show ?thesis
    by (cases r) (simp_all add: l2_penalty_backward_def params_def)
qed

lemma length_nd_dot_backward: "length (nd_dot_backward X d c g) = d * c"
  by (simp add: nd_dot_backward_def length_concat comp_def sum_list_triv)

lemma length_broadcast_add_backward: "length (broadcast_add_backward c g) = c"
  by (simp add: broadcast_add_backward_def)

lemma net_backward_lengths:
  assumes "wf_params s"
  shows "length (fst (net_backward s X yhat g)) = length (data (W s))"
    and "length (snd (net_backward s X yhat g)) = length (data (b s))"
  using assms
  by (simp_all add: wf_params_def wf_ndarray_def net_backward_def Let_def
      length_nd_dot_backward length_broadcast_add_backward)

text \<open>With the strength zero the penalty adds zero to every gradient.\<close>

lemma backward_l2_zero:
  assumes "wf_params s"
  shows "backward_l2 0 dat yhat y ce s = backward dat yhat y ce s"
proof -
  obtain gW gb where nb: "net_backward s dat yhat (cross_entropy_backward yhat y (map (\<lambda>_. 1) ce)) = (gW, gb)"
    by (cases "net_backward s dat yhat (cross_entropy_backward yhat y (map (\<lambda>_. 1) ce))")
  from net_backward_lengths[OF assms, of dat yhat "cross_entropy_backward yhat y (map (\<lambda>_. 1) ce)"]
  have len: "length gW = length (data (W s))" "length gb = length (data (b s))"
    unfolding nb by simp_all
  have "map2 (+) gW (l2_penalty_backward params 0 s Ref_W) = gW"
    unfolding l2_penalty_backward_zero using len by (intro map2_add_zeros) simp_all
  moreover have "map2 (+) gb (l2_penalty_backward params 0 s Ref_b) = gb"
    unfolding l2_penalty_backward_zero using len by (intro map2_add_zeros) simp_all
  ultimately show ?thesis
    by (simp add: backward_l2_def backward_def nb Let_def)
qed

text \<open>The loss of the two images of the concrete state, whose weights and biases are zero.\<close>

lemma softmax_row_zeros: "softmax_row (replicate 10 0) = replicate 10 (1 / 10)"
proof -
  have "\<forall>v\<in>set (replicate 10 (0::real)). Max (set (replicate 10 0)) - 80 \<le> v"
    by simp
  then have "softmax_row (replicate 10 0) = spec_softmax (replicate 10 0)"
    by (rule softmax_row_eq_spec)
  then show ?thesis
    by (simp add: spec_softmax_def sum_list_replicate)
qed

lemma reshape_rows_example:
  "reshape_rows 784 (batch_data example_batch) = Inr [replicate 784 0, replicate 784 1]"
proof -
  have "[0..<length [0::nat, 3]] = [0, 1]"
    by (simp add: upt_rec)
  then show ?thesis
    unfolding reshape_rows_wf[OF wf_example_batch] by (simp add: example_batch_def)
qed

lemma batch_loss_example:
  assumes "W s = W example_state" and "b s = b example_state"
  shows "batch_loss example_batch s = Inr [ln 10, ln 10]"
proof -
  have wf: "wf_params s"
    using wf_example_state assms by (simp add: wf_params_def)
  have aff: "spec_affine s x = replicate 10 0" for x
    using spec_affine_example[of x] assms by (simp add: spec_affine_def)
  have len: "\<forall>x\<in>set [replicate 784 0, replicate 784 (1::real)]. length x = 784"
    by simp
  have nt: "net s [replicate 784 0, replicate 784 1] = Inr [replicate 10 (1 / 10), replicate 10 (1 / 10)]"
    unfolding net_rows[OF wf len] by (simp add: aff softmax_row_zeros)
  have oh: "\<forall>i<length (one_hot [0, 3] 10). spec_one_hot_row (one_hot [0, 3] 10 ! i) ([0, 3] ! i)"
    using one_hot_is_one_hot[of 0 "[0, 3]" 10] one_hot_is_one_hot[of 1 "[0, 3]" 10]
    by (auto simp: less_Suc_eq one_hot_def)
  have "cross_entropy [replicate 10 (1 / 10), replicate 10 (1 / 10)] (one_hot [0, 3] 10)
      = Inr (map2 (\<lambda>r c. - ln (r ! c)) [replicate 10 (1 / 10), replicate 10 (1 / 10)] [0, 3])"
    by (rule cross_entropy_one_hot[OF _ _ _ _ oh]) (simp_all add: one_hot_def)
  also have "\<dots> = Inr [ln 10, ln 10]"
    by (simp add: ln_div)
  finally have ce: "cross_entropy [replicate 10 (1 / 10), replicate 10 (1 / 10)] (one_hot [0, 3] 10)
      = Inr [ln 10, ln 10]" .
  have lb: "batch_label example_batch = [0, 3]"
    by (simp add: example_batch_def)
  show ?thesis
    unfolding batch_loss_def reshape_rows_example lb by (simp add: nt ce)
qed

text \<open>
  C5. From the same parameters and on the same batch, the body of the second loop
  with \<^verbatim>\<open>l2_strength = 0\<close> and the body of the first loop either fail alike or leave
  the same \<^verbatim>\<open>W\<close> and \<^verbatim>\<open>b\<close>: the same gradients in the buffers and the same
  updated values.
\<close>

theorem l2_strength_zero_same_update:
  assumes "wf_params s"
  shows "map_sum id (\<lambda>s'. (W s', b s')) (train_batch_l2 0 i batch s)
       = map_sum id (\<lambda>s'. (W s', b s')) (train_batch i batch s)"
proof (cases rule: train_batch_cases[of batch s i])
  case (fail e)
  then show ?thesis
    by (cases rule: train_batch_l2_cases[of batch s 0 i]) simp_all
next
  case (ok dat yhat loss s2)
  then show ?thesis
    by (cases rule: train_batch_l2_cases[of batch s 0 i]) (simp_all add: backward_l2_zero[OF assms])
qed

theorem l2_strength_zero_same_update_witness:
  "\<exists>s'. train_batch 0 example_batch example_state = Inr s' \<and>
     map_sum id (\<lambda>s'. (W s', b s')) (train_batch_l2 0 0 example_batch example_state) = Inr (W s', b s')"
proof -
  have "batch_loss example_batch example_state = Inr [ln 10, ln 10]"
    by (rule batch_loss_example[OF refl refl])
  then obtain s' where "train_batch 0 example_batch example_state = Inr s'"
    by (cases rule: train_batch_cases[of example_batch example_state 0]) simp_all
  with l2_strength_zero_same_update[OF wf_example_state, of 0 example_batch] show ?thesis
    by simp
qed









text \<open>Neither body reads the gradient buffers or the number of the batch to update the parameters.\<close>

lemma net_write_grads: "net (write_grads g1 g2 s) X = net s X"
  by (auto simp: net_def write_grads_def split: list.splits)

lemma batch_loss_write_grads: "batch_loss batch (write_grads g1 g2 s) = batch_loss batch s"
  by (simp add: batch_loss_def net_write_grads cong: sum.case_cong)




lemma l2_penalty_write_grads: "l2_penalty ps (write_grads g1 g2 s) = l2_penalty ps s"
proof -
  have "data (get_param (write_grads g1 g2 s) r) = data (get_param s r)" for r
    by (cases r) (simp_all add: write_grads_def)
  then show ?thesis by (simp add: l2_penalty_def)
qed





subsection \<open>The moving loss\<close>







subsection \<open>The update of the parameters\<close>











subsection \<open>The gradient in closed form\<close>

lemma map2_const_right:
  "length xs = length ys \<Longrightarrow> map2 (\<lambda>x y. f x) xs ys = map f xs"
  by (induction xs ys rule: list_induct2) simp_all

lemma sum_list_map2_neg:
  assumes "length yr = length p" and "\<forall>q\<in>set p. q \<noteq> (0::real)"
  shows "sum_list (map2 (*) p (map2 (\<lambda>q y. - y / q) p yr)) = - sum_list yr"
  using assms by (induction yr p rule: list_induct2) simp_all

lemma softmax_row_backward_closed:
  assumes "length yr = length p" and "\<forall>q\<in>set p. q \<noteq> (0::real)" and "sum_list yr = 1"
  shows "softmax_row_backward p (map2 (\<lambda>q y. - y / q) p yr) = map2 (-) p yr"
proof -
  have t: "sum_list (map2 (*) p (map2 (\<lambda>q y. - y / q) p yr)) = - 1"
    using sum_list_map2_neg[OF assms(1,2)] assms(3) by simp
  have "map2 (\<lambda>pi gi. pi * (gi - (- 1))) p (map2 (\<lambda>q y. - y / q) p yr) = map2 (-) p yr"
    using assms(1,2) by (induction yr p rule: list_induct2) (simp_all add: algebra_simps)
  then show ?thesis
    unfolding softmax_row_backward_def Let_def t .
qed

lemma cross_entropy_backward_row:
  assumes "length yr = length p"
  shows "map2 (\<lambda>q gi. gi / q) p (map2 (*) yr (map (\<lambda>_. - 1) (map2 (*) yr (map ln p))))
       = map2 (\<lambda>q y. - y / q) p yr"
  using assms by (induction yr p rule: list_induct2) simp_all

lemma cross_entropy_backward_closed:
  assumes "map length yhat = map length y"
  shows "cross_entropy_backward yhat y (map (\<lambda>_. 1) y) = map2 (map2 (\<lambda>q y. - y / q)) yhat y"
proof (rule nth_equalityI)
  have len: "length yhat = length y"
    using assms by (metis length_map)
  show "length (cross_entropy_backward yhat y (map (\<lambda>_. 1) y))
      = length (map2 (map2 (\<lambda>q y. - y / q)) yhat y)"
    using len by (simp add: cross_entropy_backward_def nd_log_backward_def nd_mul_backward_def
        nd_sum_exclude0_backward_def nd_neg_backward_def nd_mul_def nd_log_def Let_def)
  fix i assume "i < length (cross_entropy_backward yhat y (map (\<lambda>_. 1) y))"
  then have i: "i < length y" "i < length yhat"
    using len by (simp_all add: cross_entropy_backward_def nd_log_backward_def nd_mul_backward_def
        nd_sum_exclude0_backward_def nd_neg_backward_def nd_mul_def nd_log_def Let_def)
  have li: "length (y ! i) = length (yhat ! i)"
    using assms i by (metis length_map nth_map)
  show "cross_entropy_backward yhat y (map (\<lambda>_. 1) y) ! i = map2 (map2 (\<lambda>q y. - y / q)) yhat y ! i"
    using i cross_entropy_backward_row[OF li]
    by (simp add: cross_entropy_backward_def nd_log_backward_def nd_mul_backward_def
        nd_sum_exclude0_backward_def nd_neg_backward_def nd_mul_def nd_log_def Let_def)
qed

text \<open>
  For probabilities without a zero and label rows that sum to one, the reverse pass
  through the loss and the softmax arrives at the gradient of the affine transform in
  the closed form that the specification's design notes name: the predicted
  probabilities minus the one-hot labels.
\<close>

lemma softmax_cross_entropy_backward_closed:
  assumes "map length yhat = map length y"
    and "\<forall>r\<in>set yhat. \<forall>q\<in>set r. q \<noteq> 0"
    and "\<forall>r\<in>set y. sum_list r = 1"
  shows "nd_softmax_backward yhat (cross_entropy_backward yhat y (map (\<lambda>_. 1) y))
       = map2 (map2 (-)) yhat y"
proof -
  have len: "length yhat = length y"
    using assms(1) by (metis length_map)
  show ?thesis
    unfolding cross_entropy_backward_closed[OF assms(1)] nd_softmax_backward_def
  proof (rule nth_equalityI)
    show "length (map2 softmax_row_backward yhat (map2 (map2 (\<lambda>q y. - y / q)) yhat y))
        = length (map2 (map2 (-)) yhat y)"
      using len by simp
    fix i assume "i < length (map2 softmax_row_backward yhat (map2 (map2 (\<lambda>q y. - y / q)) yhat y))"
    then have i: "i < length y" "i < length yhat"
      using len by simp_all
    have li: "length (y ! i) = length (yhat ! i)"
      using assms(1) i by (metis length_map nth_map)
    have nz: "\<forall>q\<in>set (yhat ! i). q \<noteq> 0"
      using assms(2) i(2) nth_mem by blast
    have s1: "sum_list (y ! i) = 1"
      using assms(3) i(1) nth_mem by blast
    show "map2 softmax_row_backward yhat (map2 (map2 (\<lambda>q y. - y / q)) yhat y) ! i
        = map2 (map2 (-)) yhat y ! i"
      using i softmax_row_backward_closed[OF li nz s1] by simp
  qed
qed

lemma sum_list_one_hot_row:
  "l < depth \<Longrightarrow> (\<Sum>j\<leftarrow>[0..<depth]. if j = l then 1 else 0) = (1::real)"
  by (simp add: interv_sum_list_conv_sum_set_nat)

lemma backward_closed_form:
  assumes "wf_params s" and "net s dat = Inr yhat"
    and "cross_entropy yhat (one_hot label 10) = Inr loss"
    and "\<forall>l\<in>set label. l < 10"
  shows "grad (W (backward dat yhat (one_hot label 10) loss s))
           = nd_dot_backward dat 784 10 (map2 (map2 (-)) yhat (one_hot label 10)) \<and>
         grad (b (backward dat yhat (one_hot label 10) loss s))
           = broadcast_add_backward 10 (map2 (map2 (-)) yhat (one_hot label 10))"
proof -
  have sh: "map length yhat = map length (one_hot label 10)"
    using assms(3) by (auto simp: cross_entropy_def split: if_splits)
  have ll: "length loss = length (one_hot label 10)"
    using assms(3) sh
    by (auto simp: cross_entropy_def nd_neg_def nd_sum_exclude0_def nd_mul_def nd_log_def
        split: if_splits dest: arg_cong[where f=length])
  then have head: "map (\<lambda>_. 1::real) loss = map (\<lambda>_. 1) (one_hot label 10)"
    by (simp add: map_replicate_const)
  have nz: "\<forall>r\<in>set yhat. \<forall>q\<in>set r. q \<noteq> 0"
    using assms(3) by (fastforce simp: cross_entropy_def split: if_splits)
  have one: "\<forall>r\<in>set (one_hot label 10). sum_list r = 1"
    using assms(4) by (auto simp: one_hot_def sum_list_one_hot_row)
  from assms(1) have shp: "shape (W s) = [784, 10]"
    by (simp add: wf_params_def)
  show ?thesis
    unfolding backward_def head
    by (simp add: net_backward_def shp Let_def write_grads_def
        softmax_cross_entropy_backward_closed[OF sh nz one])
qed

end
